theory Spec2Isabelle
  imports Main "HOL-Library.Char_ord" "HOL-Library.List_Lexorder" "HOL-Library.Product_Lexorder"
begin

section \<open>The Python runtime the program stands on\<close>

text \<open>
  \<^verbatim>\<open>csgo_case_calculator.py\<close> computes with Python floats (binary64), calls
  \<^verbatim>\<open>round\<close>, \<^verbatim>\<open>float\<close> and \<^verbatim>\<open>datetime.strptime\<close>. The embedding does not fix
  an arithmetic: the float type is a type variable and the primitives are the fields of
  a record that every function of the model takes as its first argument. Every theorem
  below therefore holds for any behaviour of these primitives, IEEE rounding included,
  and none of them uses an algebraic law of the reals.
\<close>

record datetime =
  year :: nat
  month :: nat
  day :: nat
  hour :: nat
  minute :: nat
  second :: nat

record 'f py =
  float_zero :: 'f  \<comment> \<open>the literal \<^verbatim>\<open>0.0\<close>\<close>
  float_add :: "'f \<Rightarrow> 'f \<Rightarrow> 'f"  \<comment> \<open>\<^verbatim>\<open>x + y\<close> on floats\<close>
  float_sub :: "'f \<Rightarrow> 'f \<Rightarrow> 'f"  \<comment> \<open>\<^verbatim>\<open>x - y\<close> on floats\<close>
  float_mul_int :: "'f \<Rightarrow> int \<Rightarrow> 'f"  \<comment> \<open>\<^verbatim>\<open>x * n\<close>, a float by an int\<close>
  float_lt_int :: "'f \<Rightarrow> int \<Rightarrow> bool"  \<comment> \<open>\<^verbatim>\<open>x < n\<close>, a float against an int\<close>
  float_bool :: "'f \<Rightarrow> bool"  \<comment> \<open>truth value of a float\<close>
  round_ndigits :: "'f \<Rightarrow> int \<Rightarrow> 'f"  \<comment> \<open>\<^verbatim>\<open>round(x, n)\<close>\<close>
  float_str :: "string \<Rightarrow> 'f option"  \<comment> \<open>\<^verbatim>\<open>float(s)\<close>; \<open>None\<close> is ValueError\<close>
  strptime_other :: "string \<Rightarrow> datetime option"
    \<comment> \<open>\<^verbatim>\<open>strptime(s, "%Y%m%d_%H%M%S")\<close> on a string that is not of the fixed width\<close>
  strftime_year_short :: "nat \<Rightarrow> string"
    \<comment> \<open>\<^verbatim>\<open>%Y\<close> for a year below 1000, which the C library pads or not\<close>

datatype py_error =
  RequestException | HTTPError | JSONDecodeError | AttributeError
  | ValueError | KeyError | TypeError | OSError

section \<open>JSON values\<close>

text \<open>
  What \<^verbatim>\<open>json.load\<close> and \<^verbatim>\<open>resp.json()\<close> return. An object holds the items of
  the parsed dict. Strings are byte strings in UTF-8, whose lexicographic order is the
  order of the code points Python compares.
\<close>

datatype 'f json =
  JNull | JBool bool | JInt int | JFloat 'f | JStr string
  | JArr "'f json list" | JObj "(string \<times> 'f json) list"

fun py_bool :: "'f py \<Rightarrow> 'f json \<Rightarrow> bool" where
  "py_bool rt JNull = False"
| "py_bool rt (JBool b) = b"
| "py_bool rt (JInt n) = (n \<noteq> 0)"
| "py_bool rt (JFloat x) = float_bool rt x"
| "py_bool rt (JStr s) = (s \<noteq> [])"
| "py_bool rt (JArr xs) = (xs \<noteq> [])"
| "py_bool rt (JObj kvs) = (kvs \<noteq> [])"

text \<open>\<^verbatim>\<open>data.get(k)\<close>: only a dict has the method.\<close>

fun dict_get :: "'f json \<Rightarrow> string \<Rightarrow> py_error + 'f json" where
  "dict_get (JObj kvs) k = Inr (case map_of kvs k of None \<Rightarrow> JNull | Some v \<Rightarrow> v)"
| "dict_get _ k = Inl AttributeError"

text \<open>\<^verbatim>\<open>data[k]\<close> with a string key.\<close>

fun subscript :: "'f json \<Rightarrow> string \<Rightarrow> py_error + 'f json" where
  "subscript (JObj kvs) k = (case map_of kvs k of None \<Rightarrow> Inl KeyError | Some v \<Rightarrow> Inr v)"
| "subscript _ k = Inl TypeError"

section \<open>Configuration\<close>

definition INVENTORY :: "(string \<times> int) list" where
  "INVENTORY =
    [(''Horizon Case'', 1000),
     (''Danger Zone Case'', 1000),
     (''Prisma Case'', 1000),
     (''Spectrum 2 Case'', 150),
     (''Clutch Case'', 649),
     (''Falchion Case'', 142),
     (''Operation Breakout Weapon Case'', 100)]"

definition SNAPSHOT_DIR :: string where
  "SNAPSHOT_DIR = ''snapshots''"

definition CACHE_TTL :: int where
  "CACHE_TTL = 3600"

section \<open>Files\<close>

text \<open>
  A file that exists is unreadable (\<^verbatim>\<open>open\<close> raises), holds text that
  \<^verbatim>\<open>json.load\<close> rejects (an empty or truncated file is of this kind), or holds a
  document. The cache file is read at the type \<^verbatim>\<open>_save_cache\<close> writes it: a dict
  from item names to \<^verbatim>\<open>{"price_eur": float, "ts": float}\<close>. The file system accepts
  every write; an OSError of \<^verbatim>\<open>open(..., "w")\<close> or \<^verbatim>\<open>os.replace\<close> is outside the
  model.
\<close>

datatype 'a on_disk = Unreadable | NotJson | Holds 'a

record 'f cache_entry =
  price_eur :: 'f
  ts :: 'f

type_synonym 'f cache = "string \<rightharpoonup> 'f cache_entry"

record 'f disk =
  cache_file :: "'f cache on_disk option"  \<comment> \<open>\<^verbatim>\<open>price_cache.json\<close>\<close>
  cache_tmp :: "'f cache on_disk option"  \<comment> \<open>\<^verbatim>\<open>price_cache.json.tmp\<close>\<close>
  snapshots :: "(string \<times> 'f json on_disk) list"  \<comment> \<open>the files of \<^verbatim>\<open>snapshots/\<close>, by name\<close>

fun write_file :: "string \<Rightarrow> 'a \<Rightarrow> (string \<times> 'a) list \<Rightarrow> (string \<times> 'a) list" where
  "write_file n c [] = [(n, c)]"
| "write_file n c ((m, d) # fs) = (if m = n then (n, c) # fs else (m, d) # write_file n c fs)"

definition load_cache :: "'f disk \<Rightarrow> 'f cache" where
  "load_cache d =
    (case cache_file d of
       None \<Rightarrow> Map.empty
     | Some Unreadable \<Rightarrow> Map.empty
     | Some NotJson \<Rightarrow> Map.empty
     | Some (Holds c) \<Rightarrow> c)"

text \<open>
  A write is a sequence of steps on the disk, so that a crash is the run of a prefix of
  it. \<^verbatim>\<open>open(path, "w")\<close> leaves an empty file at the path, the end of the
  \<^verbatim>\<open>with\<close> block leaves the whole document there.
\<close>

definition run_steps :: "('d \<Rightarrow> 'd) list \<Rightarrow> 'd \<Rightarrow> 'd" where
  "run_steps steps d = foldl (\<lambda>s f. f s) d steps"

definition crash_after :: "nat \<Rightarrow> ('d \<Rightarrow> 'd) list \<Rightarrow> 'd \<Rightarrow> 'd" where
  "crash_after k steps d = run_steps (take k steps) d"

definition open_w_tmp :: "'f disk \<Rightarrow> 'f disk" where
  "open_w_tmp d = d\<lparr>cache_tmp := Some NotJson\<rparr>"

definition dump_tmp :: "'f cache \<Rightarrow> 'f disk \<Rightarrow> 'f disk" where
  "dump_tmp cache d = d\<lparr>cache_tmp := Some (Holds cache)\<rparr>"

definition replace_tmp :: "'f disk \<Rightarrow> 'f disk" where
  "replace_tmp d = d\<lparr>cache_file := cache_tmp d, cache_tmp := None\<rparr>"

definition save_cache_steps :: "'f cache \<Rightarrow> ('f disk \<Rightarrow> 'f disk) list" where
  "save_cache_steps cache = [open_w_tmp, dump_tmp cache, replace_tmp]"

definition save_cache :: "'f cache \<Rightarrow> 'f disk \<Rightarrow> 'f disk" where
  "save_cache cache d = run_steps (save_cache_steps cache) d"

definition open_w_snapshot :: "string \<Rightarrow> 'f disk \<Rightarrow> 'f disk" where
  "open_w_snapshot filename d = d\<lparr>snapshots := write_file filename NotJson (snapshots d)\<rparr>"

definition dump_snapshot :: "string \<Rightarrow> 'f json \<Rightarrow> 'f disk \<Rightarrow> 'f disk" where
  "dump_snapshot filename doc d = d\<lparr>snapshots := write_file filename (Holds doc) (snapshots d)\<rparr>"

definition save_snapshot_steps :: "string \<Rightarrow> 'f json \<Rightarrow> ('f disk \<Rightarrow> 'f disk) list" where
  "save_snapshot_steps filename doc = [open_w_snapshot filename, dump_snapshot filename doc]"

section \<open>Price fetch\<close>

text \<open>\<^verbatim>\<open>s.replace(old, new)\<close>: every occurrence, left to right, without overlap.\<close>

function str_replace :: "string \<Rightarrow> string \<Rightarrow> string \<Rightarrow> string" where
  "str_replace old new [] = (if old = [] then new else [])"
| "str_replace old new (c # cs) =
    (if old = [] then new @ c # str_replace old new cs
     else if take (length old) (c # cs) = old
       then new @ str_replace old new (drop (length old) (c # cs))
     else c # str_replace old new cs)"
  by pat_completeness auto
termination
  by (relation "measure (\<lambda>(old, new, s). length s)") (auto simp: neq_Nil_conv)

definition EURO :: string where
  "EURO = [CHR 0xE2, CHR 0x82, CHR 0xAC]"

definition normalize_price :: "string \<Rightarrow> string" where
  "normalize_price price_raw =
    str_replace '','' ''.'' (str_replace '' '' '''' (str_replace EURO '''' price_raw))"

definition hex_digit :: "nat \<Rightarrow> char" where
  "hex_digit n = ''0123456789ABCDEF'' ! n"

definition always_safe :: "char \<Rightarrow> bool" where
  "always_safe c =
    ((CHR ''A'' \<le> c \<and> c \<le> CHR ''Z'') \<or> (CHR ''a'' \<le> c \<and> c \<le> CHR ''z'')
     \<or> (CHR ''0'' \<le> c \<and> c \<le> CHR ''9'') \<or> c \<in> set ''_.-~'')"

definition quote :: "string \<Rightarrow> string" where
  "quote s =
    concat (map (\<lambda>c. if always_safe c \<or> c = CHR ''/'' then [c]
                      else [CHR ''%'', hex_digit (of_char c div 16), hex_digit (of_char c mod 16)]) s)"

definition price_url :: "string \<Rightarrow> string" where
  "price_url item_name =
    ''https://steamcommunity.com/market/priceoverview/''
    @ ''?currency=3&appid=730&market_hash_name='' @ quote item_name"

text \<open>What one \<^verbatim>\<open>requests.get\<close> comes to, up to \<^verbatim>\<open>resp.json()\<close>.\<close>

datatype 'f reply =
  ConnectionFailed  \<comment> \<open>\<^verbatim>\<open>requests.get\<close> raises\<close>
  | BadStatus  \<comment> \<open>\<^verbatim>\<open>raise_for_status\<close> raises\<close>
  | BadBody  \<comment> \<open>\<^verbatim>\<open>resp.json()\<close> raises\<close>
  | Body "'f json"

text \<open>The body of the \<^verbatim>\<open>try\<close> block after the request, with its exceptions as values.\<close>

definition steam_price :: "'f py \<Rightarrow> 'f reply \<Rightarrow> py_error + 'f" where
  "steam_price rt r =
    (case r of
       ConnectionFailed \<Rightarrow> Inl RequestException
     | BadStatus \<Rightarrow> Inl HTTPError
     | BadBody \<Rightarrow> Inl JSONDecodeError
     | Body data \<Rightarrow>
        (case dict_get data ''lowest_price'' of
           Inl e \<Rightarrow> Inl e
         | Inr lowest \<Rightarrow>
            (case (if py_bool rt lowest then Inr lowest else dict_get data ''median_price'') of
               Inl e \<Rightarrow> Inl e
             | Inr price_raw \<Rightarrow>
                if \<not> py_bool rt price_raw then Inl ValueError
                else (case price_raw of
                        JStr s \<Rightarrow>
                          (case float_str rt (normalize_price s) of
                             None \<Rightarrow> Inl ValueError
                           | Some price \<Rightarrow> Inr price)
                      | _ \<Rightarrow> Inl AttributeError))))"

text \<open>
  The world a request handler runs in: the successive readings of \<^verbatim>\<open>time.time()\<close>,
  what the upstream answers to the k-th request, and the local wall clock that
  \<^verbatim>\<open>time.strftime\<close> formats. The handler's trace counts the clock readings and
  records the URLs requested and the warnings printed.
\<close>

record 'f env =
  time_time :: "nat \<Rightarrow> 'f"
  requests_get :: "nat \<Rightarrow> string \<Rightarrow> 'f reply"
  localtime :: datetime

record io =
  clock_reads :: nat
  sent :: "string list"
  printed :: "(string \<times> py_error) list"

text \<open>
  \<^verbatim>\<open>fetch_price_eur(item_name, cache)\<close> reads the clock, returns the cached price
  when the entry is there and \<^verbatim>\<open>now - entry["ts"] < CACHE_TTL\<close>, and otherwise sends
  one request. A price stores \<^verbatim>\<open>{"price_eur": price, "ts": now}\<close> under the item; any
  exception of the \<^verbatim>\<open>try\<close> block prints a warning and gives \<^verbatim>\<open>None\<close>. The dict
  the Python mutates is returned as the second component.
\<close>

definition fresh :: "'f py \<Rightarrow> 'f \<Rightarrow> 'f cache_entry \<Rightarrow> bool" where
  "fresh rt now entry = float_lt_int rt (float_sub rt now (ts entry)) CACHE_TTL"

definition fetch_price_eur ::
  "'f py \<Rightarrow> 'f env \<Rightarrow> string \<Rightarrow> 'f cache \<Rightarrow> io \<Rightarrow> 'f option \<times> 'f cache \<times> io" where
  "fetch_price_eur rt env item_name cache io0 =
    (let now = time_time env (clock_reads io0);
         io1 = io0\<lparr>clock_reads := Suc (clock_reads io0)\<rparr>;
         hit = (case cache item_name of
                  None \<Rightarrow> None
                | Some entry \<Rightarrow> if fresh rt now entry then Some (price_eur entry) else None)
     in case hit of
          Some price \<Rightarrow> (Some price, cache, io1)
        | None \<Rightarrow>
           (let url = price_url item_name;
                r = requests_get env (length (sent io1)) url;
                io2 = io1\<lparr>sent := sent io1 @ [url]\<rparr>
            in case steam_price rt r of
                 Inr p \<Rightarrow>
                   (Some p, cache(item_name \<mapsto> \<lparr>price_eur = p, ts = now\<rparr>), io2)
               | Inl exc \<Rightarrow>
                   (None, cache, io2\<lparr>printed := printed io2 @ [(item_name, exc)]\<rparr>)))"

section \<open>Timestamps in file names\<close>

definition digit_char :: "nat \<Rightarrow> char" where
  "digit_char n = ''0123456789'' ! n"

function dec :: "nat \<Rightarrow> string" where
  "dec n = (if n < 10 then [digit_char n] else dec (n div 10) @ [digit_char (n mod 10)])"
  by pat_completeness auto
termination
  by (relation "measure (\<lambda>n. n)") auto

declare dec.simps [simp del]

definition pad :: "nat \<Rightarrow> nat \<Rightarrow> string" where
  "pad w n = replicate (w - length (dec n)) CHR ''0'' @ dec n"

definition format_year :: "'f py \<Rightarrow> nat \<Rightarrow> string" where
  "format_year rt y = (if 1000 \<le> y then dec y else strftime_year_short rt y)"

text \<open>\<^verbatim>\<open>time.strftime('%Y%m%d_%H%M%S')\<close> and \<^verbatim>\<open>ts.strftime("%Y-%m-%d %H:%M")\<close>.\<close>

definition strftime_stamp :: "'f py \<Rightarrow> datetime \<Rightarrow> string" where
  "strftime_stamp rt t =
    format_year rt (year t) @ pad 2 (month t) @ pad 2 (day t) @ ''_''
    @ pad 2 (hour t) @ pad 2 (minute t) @ pad 2 (second t)"

definition strftime_minute :: "'f py \<Rightarrow> datetime \<Rightarrow> string" where
  "strftime_minute rt t =
    format_year rt (year t) @ ''-'' @ pad 2 (month t) @ ''-'' @ pad 2 (day t) @ '' ''
    @ pad 2 (hour t) @ '':'' @ pad 2 (minute t)"

definition is_digit :: "char \<Rightarrow> bool" where
  "is_digit c = (CHR ''0'' \<le> c \<and> c \<le> CHR ''9'')"

definition digit_val :: "char \<Rightarrow> nat" where
  "digit_val c = of_char c - 48"

definition num :: "string \<Rightarrow> nat" where
  "num s = foldl (\<lambda>n c. 10 * n + digit_val c) 0 s"

definition fixed_width :: "string \<Rightarrow> bool" where
  "fixed_width s =
    (length s = 15 \<and> list_all is_digit (take 8 s) \<and> s ! 8 = CHR ''_''
     \<and> list_all is_digit (drop 9 s))"

definition is_leap :: "nat \<Rightarrow> bool" where
  "is_leap y = (y mod 4 = 0 \<and> (y mod 100 \<noteq> 0 \<or> y mod 400 = 0))"

definition days_in_month :: "nat \<Rightarrow> nat \<Rightarrow> nat" where
  "days_in_month y m =
    (if m = 2 then (if is_leap y then 29 else 28)
     else if m \<in> {4, 6, 9, 11} then 30 else 31)"

definition valid_datetime :: "datetime \<Rightarrow> bool" where
  "valid_datetime t =
    (1 \<le> year t \<and> year t \<le> 9999 \<and> 1 \<le> month t \<and> month t \<le> 12
     \<and> 1 \<le> day t \<and> day t \<le> days_in_month (year t) (month t)
     \<and> hour t \<le> 23 \<and> minute t \<le> 59 \<and> second t \<le> 59)"

text \<open>
  \<^verbatim>\<open>datetime.strptime(ts_str, "%Y%m%d_%H%M%S")\<close>. On a string of the fixed width
  (eight digits, an underscore, six digits) the format's regular expression can only
  read four, two, two, two, two and two digits, and the datetime constructor then
  checks the ranges. The directives also take one-digit fields, so a string of another
  shape may parse too: that is left to the runtime.
\<close>

definition strptime :: "'f py \<Rightarrow> string \<Rightarrow> datetime option" where
  "strptime rt s =
    (if fixed_width s then
       (let t = \<lparr>year = num (take 4 s), month = num (take 2 (drop 4 s)),
                 day = num (take 2 (drop 6 s)), hour = num (take 2 (drop 9 s)),
                 minute = num (take 2 (drop 11 s)), second = num (take 2 (drop 13 s))\<rparr>
        in if valid_datetime t then Some t else None)
     else strptime_other rt s)"

section \<open>The valuation endpoint\<close>

record 'f item =
  name :: string
  count :: int
  price :: "'f option"
  total :: "'f option"

record 'f response =
  items :: "'f item list"
  grand_total :: 'f
  filename :: "string option"  \<comment> \<open>the keys \<^verbatim>\<open>saved\<close> and \<^verbatim>\<open>filename\<close>, when stored\<close>

text \<open>
  The loop of \<^verbatim>\<open>api_prices\<close> over \<^verbatim>\<open>INVENTORY.items()\<close>: its state is the cache,
  the trace, the items so far and the running \<^verbatim>\<open>grand_total\<close>.
\<close>

definition line_total :: "'f py \<Rightarrow> 'f option \<Rightarrow> int \<Rightarrow> 'f option" where
  "line_total rt pr cnt =
    (case pr of Some p \<Rightarrow> Some (round_ndigits rt (float_mul_int rt p cnt) 2) | None \<Rightarrow> None)"

fun price_loop ::
  "'f py \<Rightarrow> 'f env \<Rightarrow> (string \<times> int) list \<Rightarrow> 'f cache \<times> io \<times> 'f item list \<times> 'f
    \<Rightarrow> 'f cache \<times> io \<times> 'f item list \<times> 'f" where
  "price_loop rt env [] st = st"
| "price_loop rt env ((nm, cnt) # rest) (cache, io0, its, gt) =
    (case fetch_price_eur rt env nm cache io0 of
       (pr, cache', io1) \<Rightarrow>
         (let tot = line_total rt pr cnt;
              gt' = (case tot of Some t \<Rightarrow> float_add rt gt t | None \<Rightarrow> gt)
          in price_loop rt env rest
               (cache', io1, its @ [\<lparr>name = nm, count = cnt, price = pr, total = tot\<rparr>], gt')))"

definition opt_json :: "'f option \<Rightarrow> 'f json" where
  "opt_json x = (case x of None \<Rightarrow> JNull | Some v \<Rightarrow> JFloat v)"

definition item_json :: "'f item \<Rightarrow> 'f json" where
  "item_json it =
    JObj [(''name'', JStr (name it)), (''count'', JInt (count it)),
          (''price'', opt_json (price it)), (''total'', opt_json (total it))]"

definition resp_json :: "'f item list \<Rightarrow> 'f \<Rightarrow> 'f json" where
  "resp_json its gt =
    JObj [(''items'', JArr (map item_json its)), (''grand_total'', JFloat gt)]"

definition snapshot_name :: "'f py \<Rightarrow> datetime \<Rightarrow> string" where
  "snapshot_name rt t = ''csgo_snapshot_'' @ strftime_stamp rt t @ ''.json''"

text \<open>
  \<^verbatim>\<open>api_prices\<close>: load the cache, run the loop, save the cache, round the total; with
  \<^verbatim>\<open>store=1\<close> dump the response, as it is before \<^verbatim>\<open>saved\<close> and \<^verbatim>\<open>filename\<close> are
  added, into the snapshot named after the local time. \<^verbatim>\<open>os.makedirs\<close> has nothing to
  do in the model, where the directory is the list of its files.
\<close>

definition api_prices ::
  "'f py \<Rightarrow> 'f env \<Rightarrow> string option \<Rightarrow> 'f disk \<Rightarrow> io \<Rightarrow> 'f response \<times> 'f disk \<times> io" where
  "api_prices rt env store d io0 =
    (case price_loop rt env INVENTORY (load_cache d, io0, [], float_zero rt) of
       (cache, io1, its, gt) \<Rightarrow>
         (let d1 = save_cache cache d;
              rounded = round_ndigits rt gt 2
          in if store = Some ''1'' then
               (let fname = snapshot_name rt (localtime env);
                    d2 = run_steps (save_snapshot_steps fname (resp_json its rounded)) d1
                in (\<lparr>items = its, grand_total = rounded, filename = Some fname\<rparr>, d2, io1))
             else (\<lparr>items = its, grand_total = rounded, filename = None\<rparr>, d1, io1)))"

section \<open>The history endpoint\<close>

text \<open>
  \<^verbatim>\<open>api_history\<close>: the sorted paths of \<^verbatim>\<open>glob.glob(SNAPSHOT_GLOB)\<close>, each read in a
  \<^verbatim>\<open>try\<close> block whose exceptions print a warning. \<^verbatim>\<open>stamp_of\<close> is
  \<^verbatim>\<open>os.path.basename(path)[len("csgo_snapshot_"):-5]\<close>.
\<close>

definition glob_match :: "string \<Rightarrow> bool" where
  "glob_match n =
    (19 \<le> length n \<and> take 14 n = ''csgo_snapshot_'' \<and> drop (length n - 5) n = ''.json'')"

text \<open>\<^verbatim>\<open>glob.glob(SNAPSHOT_GLOB)\<close>: the matching files, in the order of the directory.\<close>

definition glob :: "(string \<times> 'a) list \<Rightarrow> string list" where
  "glob dir = map (\<lambda>n. SNAPSHOT_DIR @ ''/'' @ n) (filter glob_match (map fst dir))"

definition basename :: "string \<Rightarrow> string" where
  "basename p = rev (takeWhile (\<lambda>c. c \<noteq> CHR ''/'') (rev p))"

definition file_at :: "(string \<times> 'a) list \<Rightarrow> string \<Rightarrow> 'a option" where
  "file_at dir path =
    (if take 10 path = SNAPSHOT_DIR @ ''/'' then map_of dir (drop 10 path) else None)"

definition stamp_of :: "string \<Rightarrow> string" where
  "stamp_of path = (let b = basename path in drop 14 (take (length b - 5) b))"

record 'f history_entry =
  entry_ts :: string  \<comment> \<open>the key \<^verbatim>\<open>ts\<close>\<close>
  entry_grand_total :: "'f json"  \<comment> \<open>the key \<^verbatim>\<open>grand_total\<close>\<close>

text \<open>The body of the \<^verbatim>\<open>try\<close> block of \<^verbatim>\<open>api_history\<close> for one path.\<close>

definition read_snapshot ::
  "'f py \<Rightarrow> (string \<times> 'f json on_disk) list \<Rightarrow> string \<Rightarrow> py_error + 'f history_entry" where
  "read_snapshot rt dir path =
    (case file_at dir path of
       None \<Rightarrow> Inl OSError
     | Some Unreadable \<Rightarrow> Inl OSError
     | Some NotJson \<Rightarrow> Inl JSONDecodeError
     | Some (Holds data) \<Rightarrow>
        (case strptime rt (stamp_of path) of
           None \<Rightarrow> Inl ValueError
         | Some t \<Rightarrow>
            (case subscript data ''grand_total'' of
               Inl e \<Rightarrow> Inl e
             | Inr g \<Rightarrow> Inr \<lparr>entry_ts = strftime_minute rt t, entry_grand_total = g\<rparr>)))"

fun history_loop ::
  "'f py \<Rightarrow> (string \<times> 'f json on_disk) list \<Rightarrow> string list
    \<Rightarrow> 'f history_entry list \<times> (string \<times> py_error) list
    \<Rightarrow> 'f history_entry list \<times> (string \<times> py_error) list" where
  "history_loop rt dir [] acc = acc"
| "history_loop rt dir (path # rest) (history, warned) =
    (case read_snapshot rt dir path of
       Inr e \<Rightarrow> history_loop rt dir rest (history @ [e], warned)
     | Inl exc \<Rightarrow> history_loop rt dir rest (history, warned @ [(path, exc)]))"

definition api_history ::
  "'f py \<Rightarrow> (string \<times> 'f json on_disk) list
    \<Rightarrow> 'f history_entry list \<times> (string \<times> py_error) list" where
  "api_history rt dir = history_loop rt dir (sort (glob dir)) ([], [])"

section \<open>Specification-side definitions\<close>

text \<open>
  The grand total as the specification words it: the line totals of the items whose
  price is present, each \<^verbatim>\<open>round(price * count, 2)\<close>, summed from \<^verbatim>\<open>0.0\<close> in the
  order of the inventory, the sum rounded to two digits.
\<close>

definition present_totals :: "'f py \<Rightarrow> 'f item list \<Rightarrow> 'f list" where
  "present_totals rt its =
    List.map_filter
      (\<lambda>it. case price it of
               Some p \<Rightarrow> Some (round_ndigits rt (float_mul_int rt p (count it)) 2)
             | None \<Rightarrow> None) its"

definition spec_grand_total :: "'f py \<Rightarrow> 'f item list \<Rightarrow> 'f" where
  "spec_grand_total rt its =
    round_ndigits rt (foldl (float_add rt) (float_zero rt) (present_totals rt its)) 2"

definition line_ok :: "'f py \<Rightarrow> 'f item \<Rightarrow> bool" where
  "line_ok rt it = (total it = line_total rt (price it) (count it))"

text \<open>A cache hit: the cache holds an entry for the item and its age is below the TTL.\<close>

definition hit :: "'f py \<Rightarrow> 'f \<Rightarrow> 'f cache \<Rightarrow> string \<Rightarrow> bool" where
  "hit rt now cache item_name =
    (case cache item_name of None \<Rightarrow> False | Some entry \<Rightarrow> fresh rt now entry)"

definition unpriced :: "string \<times> int \<Rightarrow> 'f item" where
  "unpriced line = \<lparr>name = fst line, count = snd line, price = None, total = None\<rparr>"

text \<open>
  The history as the specification words it: the paths in order, each read on its own;
  the readable ones give the entries, the others the warnings. \<open>times_of\<close> keeps the
  datetimes parsed from the names of the files that gave an entry, and \<open>minute_key\<close> is
  what \<^verbatim>\<open>"%Y-%m-%d %H:%M"\<close> shows of a datetime, compared field by field.
\<close>

definition entries_of ::
  "'f py \<Rightarrow> (string \<times> 'f json on_disk) list \<Rightarrow> string list \<Rightarrow> 'f history_entry list" where
  "entries_of rt dir paths =
    List.map_filter
      (\<lambda>p. case read_snapshot rt dir p of Inr e \<Rightarrow> Some e | Inl exc \<Rightarrow> None) paths"

definition warnings_of ::
  "'f py \<Rightarrow> (string \<times> 'f json on_disk) list \<Rightarrow> string list \<Rightarrow> (string \<times> py_error) list" where
  "warnings_of rt dir paths =
    List.map_filter
      (\<lambda>p. case read_snapshot rt dir p of Inr e \<Rightarrow> None | Inl exc \<Rightarrow> Some (p, exc)) paths"

definition times_of ::
  "'f py \<Rightarrow> (string \<times> 'f json on_disk) list \<Rightarrow> string list \<Rightarrow> datetime list" where
  "times_of rt dir paths =
    List.map_filter
      (\<lambda>p. case read_snapshot rt dir p of
              Inr e \<Rightarrow> strptime rt (stamp_of p)
            | Inl exc \<Rightarrow> None) paths"

definition minute_key :: "datetime \<Rightarrow> nat \<times> nat \<times> nat \<times> nat \<times> nat" where
  "minute_key t = (year t, month t, day t, hour t, minute t)"

text \<open>The part of a snapshot's file name between the prefix and \<^verbatim>\<open>.json\<close>.\<close>

definition name_stamp :: "string \<Rightarrow> string" where
  "name_stamp n = drop 14 (take (length n - 5) n)"

section \<open>A concrete runtime for the closed examples\<close>

text \<open>
  Amounts and times in hundredths, as integers: an arithmetic in which rounding to two
  digits changes nothing. It only serves to run the model on concrete inputs.
\<close>

definition round_cents :: "int \<Rightarrow> int \<Rightarrow> int" where
  "round_cents x n =
    (if 2 \<le> n then x
     else (let m = 10 ^ nat (2 - n); q = x div m; r = x mod m
           in if 2 * r < m then q * m
              else if m < 2 * r then (q + 1) * m
              else (if even q then q else q + 1) * m))"

definition cents_of_str :: "string \<Rightarrow> int option" where
  "cents_of_str s =
    (case dropWhile is_digit s of
       c # frac \<Rightarrow>
         if c = CHR ''.'' \<and> takeWhile is_digit s \<noteq> [] \<and> length frac = 2
            \<and> list_all is_digit frac
         then Some (int (num (takeWhile is_digit s) * 100 + num frac))
         else None
     | [] \<Rightarrow> None)"

definition cents_py :: "int py" where
  "cents_py =
    \<lparr>float_zero = 0, float_add = (+), float_sub = (-), float_mul_int = (*),
     float_lt_int = (\<lambda>x n. x < 100 * n), float_bool = (\<lambda>x. x \<noteq> 0),
     round_ndigits = round_cents, float_str = cents_of_str,
     strptime_other = (\<lambda>s. None), strftime_year_short = pad 4\<rparr>"

definition demo_env :: "int env" where
  "demo_env =
    \<lparr>time_time = (\<lambda>k. 170000000000),
     requests_get = (\<lambda>k url.
        if k = 0 then Body (JObj [(''lowest_price'', JStr (''12,34 '' @ EURO))])
        else if k = 1 then
          Body (JObj [(''lowest_price'', JNull), (''median_price'', JStr (''0,03'' @ EURO))])
        else ConnectionFailed),
     localtime = \<lparr>year = 2025, month = 7, day = 11, hour = 12, minute = 30, second = 45\<rparr>\<rparr>"

definition down_env :: "int env" where
  "down_env =
    \<lparr>time_time = (\<lambda>k. 170000000000),
     requests_get = (\<lambda>k url. ConnectionFailed),
     localtime = \<lparr>year = 2025, month = 7, day = 11, hour = 12, minute = 30, second = 45\<rparr>\<rparr>"

definition demo_disk :: "int disk" where
  "demo_disk =
    \<lparr>cache_file = Some (Holds [''Prisma Case'' \<mapsto> \<lparr>price_eur = 205, ts = 169999900000\<rparr>]),
     cache_tmp = None,
     snapshots = []\<rparr>"

definition demo_dir :: "(string \<times> int json on_disk) list" where
  "demo_dir =
    [(''csgo_snapshot_20250711_123045.json'',
        Holds (JObj [(''items'', JArr []), (''grand_total'', JFloat 1442000)])),
     (''csgo_snapshot_20250710_080000.json'', Holds (JObj [(''grand_total'', JFloat 1400000)])),
     (''csgo_snapshot_20250712_000000.json'', NotJson),
     (''csgo_snapshot_.json'', Holds (JObj [(''grand_total'', JFloat 1)])),
     (''csgo_snapshot_20250713_000000.json'', Holds (JArr [])),
     (''notes.txt'', Unreadable)]"

definition corrupt_disk :: "int disk" where
  "corrupt_disk = \<lparr>cache_file = Some NotJson, cache_tmp = None, snapshots = []\<rparr>"

definition io_start :: io where
  "io_start = \<lparr>clock_reads = 0, sent = [], printed = []\<rparr>"

section \<open>The valuation loop\<close>

lemma present_totals_append:
  "present_totals rt (xs @ ys) = present_totals rt xs @ present_totals rt ys"
  by (simp add: present_totals_def map_filter_def)

lemma present_totals_single:
  "present_totals rt [\<lparr>name = nm, count = cnt, price = pr, total = tot\<rparr>] =
     (case line_total rt pr cnt of Some t \<Rightarrow> [t] | None \<Rightarrow> [])"
  by (simp add: present_totals_def map_filter_def line_total_def split: option.splits)

text \<open>
  What the loop of \<^verbatim>\<open>api_prices\<close> keeps: it appends one item per inventory line, in
  order, each with its line total, and adds the present totals to the running sum.
\<close>

lemma price_loop_invariant:
  "price_loop rt env stock (cache, io0, its, gt) = (cache', io1, its', gt') \<Longrightarrow>
     \<exists>new. its' = its @ new
        \<and> map (\<lambda>it. (name it, count it)) new = stock
        \<and> list_all (line_ok rt) new
        \<and> gt' = foldl (float_add rt) gt (present_totals rt new)"
proof (induction stock arbitrary: cache io0 its gt)
  case Nil
  then show ?case by (simp add: present_totals_def map_filter_def)
next
  case (Cons a stock)
  obtain nm cnt where a: "a = (nm, cnt)" by (cases a)
  obtain pr c1 i1 where f: "fetch_price_eur rt env nm cache io0 = (pr, c1, i1)"
    by (cases "fetch_price_eur rt env nm cache io0")
  let ?it = "\<lparr>name = nm, count = cnt, price = pr, total = line_total rt pr cnt\<rparr>"
  let ?g = "case line_total rt pr cnt of Some t \<Rightarrow> float_add rt gt t | None \<Rightarrow> gt"
  from Cons.prems a f
  have "price_loop rt env stock (c1, i1, its @ [?it], ?g) = (cache', io1, its', gt')"
    by (simp add: Let_def)
  from Cons.IH [OF this] obtain new where
    n: "its' = (its @ [?it]) @ new" "map (\<lambda>it. (name it, count it)) new = stock"
       "list_all (line_ok rt) new" "gt' = foldl (float_add rt) ?g (present_totals rt new)"
    by blast
  have "gt' = foldl (float_add rt) gt (present_totals rt (?it # new))"
    using n(4) present_totals_append [of rt "[?it]" new]
    by (simp add: present_totals_single split: option.splits)
  moreover have "line_ok rt ?it"
    by (simp add: line_ok_def)
  ultimately show ?case
    using n a by (intro exI [of _ "?it # new"]) simp
qed

lemma api_prices_result:
  "\<exists>cache io1 gt.
     price_loop rt env INVENTORY (load_cache d, io0, [], float_zero rt)
       = (cache, io1, items (fst (api_prices rt env store d io0)), gt)
     \<and> grand_total (fst (api_prices rt env store d io0)) = round_ndigits rt gt 2"
  by (cases "price_loop rt env INVENTORY (load_cache d, io0, [], float_zero rt)")
     (auto simp: api_prices_def Let_def)

lemma demo_response:
  "fst (api_prices cents_py demo_env None demo_disk io_start) =
    \<lparr>items =
      [\<lparr>name = ''Horizon Case'', count = 1000, price = Some 1234, total = Some 1234000\<rparr>,
       \<lparr>name = ''Danger Zone Case'', count = 1000, price = Some 3, total = Some 3000\<rparr>,
       \<lparr>name = ''Prisma Case'', count = 1000, price = Some 205, total = Some 205000\<rparr>,
       \<lparr>name = ''Spectrum 2 Case'', count = 150, price = None, total = None\<rparr>,
       \<lparr>name = ''Clutch Case'', count = 649, price = None, total = None\<rparr>,
       \<lparr>name = ''Falchion Case'', count = 142, price = None, total = None\<rparr>,
       \<lparr>name = ''Operation Breakout Weapon Case'', count = 100, price = None, total = None\<rparr>],
     grand_total = 1442000, filename = None\<rparr>"
  by (simp add: api_prices_def INVENTORY_def load_cache_def demo_disk_def io_start_def
      fetch_price_eur_def fresh_def CACHE_TTL_def demo_env_def Let_def line_total_def
      steam_price_def normalize_price_def EURO_def cents_py_def cents_of_str_def
      is_digit_def num_def digit_val_def round_cents_def)

text \<open>
  C1. For every valuation pass, whatever the cache, the clock and the upstream answer:
  the response lists the inventory lines in order, and its grand total is the sum, from
  \<^verbatim>\<open>0.0\<close> and in that order, of the line totals \<^verbatim>\<open>round(price * count, 2)\<close> of
  exactly the items whose price is present, rounded to two digits.
\<close>

theorem grand_total_is_rounded_sum:
  "grand_total (fst (api_prices rt env store d io0))
     = spec_grand_total rt (items (fst (api_prices rt env store d io0)))
   \<and> map (\<lambda>it. (name it, count it)) (items (fst (api_prices rt env store d io0))) = INVENTORY"
proof -
  obtain cache io1 gt where
    l: "price_loop rt env INVENTORY (load_cache d, io0, [], float_zero rt)
          = (cache, io1, items (fst (api_prices rt env store d io0)), gt)"
    and g: "grand_total (fst (api_prices rt env store d io0)) = round_ndigits rt gt 2"
    using api_prices_result [of rt env d io0 store] by blast
  from price_loop_invariant [OF l] g show ?thesis
    by (auto simp: spec_grand_total_def)
qed

theorem grand_total_is_rounded_sum_witness:
  "grand_total (fst (api_prices cents_py demo_env None demo_disk io_start)) = 1442000
   \<and> spec_grand_total cents_py (items (fst (api_prices cents_py demo_env None demo_disk io_start)))
       = 1234000 + 3000 + 205000"
  using grand_total_is_rounded_sum [of cents_py demo_env None demo_disk io_start]
  by (simp add: demo_response)

text \<open>
  C9. In every response, an item's total is absent exactly when its price is absent,
  and a present price \<open>p\<close> comes with the total \<^verbatim>\<open>round(p * count, 2)\<close>.
\<close>

theorem total_null_iff_price_null:
  "\<forall>it \<in> set (items (fst (api_prices rt env store d io0))).
     (total it = None \<longleftrightarrow> price it = None)
     \<and> (\<forall>p. price it = Some p
          \<longrightarrow> total it = Some (round_ndigits rt (float_mul_int rt p (count it)) 2))"
proof -
  obtain cache io1 gt where
    l: "price_loop rt env INVENTORY (load_cache d, io0, [], float_zero rt)
          = (cache, io1, items (fst (api_prices rt env store d io0)), gt)"
    using api_prices_result [of rt env d io0 store] by blast
  from price_loop_invariant [OF l]
  have "list_all (line_ok rt) (items (fst (api_prices rt env store d io0)))"
    by auto
  then show ?thesis
    by (auto simp: list_all_iff line_ok_def line_total_def split: option.splits)
qed

theorem total_null_iff_price_null_witness:
  "\<lparr>name = ''Horizon Case'', count = 1000, price = Some 1234, total = Some 1234000\<rparr>
     \<in> set (items (fst (api_prices cents_py demo_env None demo_disk io_start)))
   \<and> round_ndigits cents_py (float_mul_int cents_py 1234 1000) 2 = 1234000
   \<and> \<lparr>name = ''Clutch Case'', count = 649, price = None, total = None\<rparr>
     \<in> set (items (fst (api_prices cents_py demo_env None demo_disk io_start)))"
  using total_null_iff_price_null [of cents_py demo_env None demo_disk io_start]
  by (simp add: demo_response)

section \<open>The price lookup\<close>

lemma fetch_hit:
  "cache item_name = Some entry \<Longrightarrow> fresh rt (time_time env (clock_reads io0)) entry \<Longrightarrow>
   fetch_price_eur rt env item_name cache io0
     = (Some (price_eur entry), cache, io0\<lparr>clock_reads := Suc (clock_reads io0)\<rparr>)"
  by (simp add: fetch_price_eur_def Let_def)

lemma fetch_no_hit:
  "\<not> hit rt (time_time env (clock_reads io0)) cache item_name \<Longrightarrow>
   fetch_price_eur rt env item_name cache io0 =
     (let now = time_time env (clock_reads io0);
          url = price_url item_name;
          io2 = io0\<lparr>clock_reads := Suc (clock_reads io0), sent := sent io0 @ [url]\<rparr>
      in case steam_price rt (requests_get env (length (sent io0)) url) of
           Inr p \<Rightarrow> (Some p, cache(item_name \<mapsto> \<lparr>price_eur = p, ts = now\<rparr>), io2)
         | Inl exc \<Rightarrow> (None, cache, io2\<lparr>printed := printed io0 @ [(item_name, exc)]\<rparr>))"
  by (auto simp: fetch_price_eur_def hit_def Let_def split: option.splits sum.splits)

lemma demo_cache:
  "load_cache demo_disk = [''Prisma Case'' \<mapsto> \<lparr>price_eur = 205, ts = 169999900000\<rparr>]"
  by (simp add: load_cache_def demo_disk_def)

lemma demo_fresh:
  "fresh cents_py (time_time demo_env (clock_reads io_start)) \<lparr>price_eur = 205, ts = 169999900000\<rparr>"
  by (simp add: fresh_def cents_py_def demo_env_def CACHE_TTL_def)

lemma demo_time: "time_time demo_env k = 170000000000"
  by (simp add: demo_env_def)

lemma demo_steam: "steam_price cents_py (requests_get demo_env 0 url) = Inr 1234"
  by (simp add: demo_env_def steam_price_def normalize_price_def EURO_def
      cents_py_def cents_of_str_def is_digit_def num_def digit_val_def)

lemma down_steam: "steam_price rt (requests_get down_env k url) = Inl RequestException"
  by (simp add: down_env_def steam_price_def)

text \<open>
  C2. When the cache holds an entry for the item whose age, \<^verbatim>\<open>now - entry["ts"]\<close>, is
  below the TTL of 3600 seconds, the lookup returns the cached price, leaves the cache
  as it is and sends no request. Conversely, when the lookup sends a request, the cache
  had no entry for the item or the entry's age was not below the TTL.
\<close>

theorem fresh_entry_served_without_request:
  "(\<forall>entry. cache item_name = Some entry
        \<and> float_lt_int rt (float_sub rt (time_time env (clock_reads io0)) (ts entry)) 3600
      \<longrightarrow> fetch_price_eur rt env item_name cache io0
            = (Some (price_eur entry), cache, io0\<lparr>clock_reads := Suc (clock_reads io0)\<rparr>))
   \<and> (sent (snd (snd (fetch_price_eur rt env item_name cache io0))) \<noteq> sent io0
      \<longrightarrow> (case cache item_name of
             None \<Rightarrow> True
           | Some entry \<Rightarrow>
               \<not> float_lt_int rt (float_sub rt (time_time env (clock_reads io0)) (ts entry)) 3600))"
  using fetch_hit [of cache item_name _ rt env io0]
  by (auto simp: fresh_def CACHE_TTL_def split: option.splits)

theorem fresh_entry_served_without_request_witness:
  "load_cache demo_disk ''Prisma Case'' = Some \<lparr>price_eur = 205, ts = 169999900000\<rparr>
   \<and> float_lt_int cents_py
       (float_sub cents_py (time_time demo_env (clock_reads io_start)) 169999900000) 3600
   \<and> fetch_price_eur cents_py demo_env ''Prisma Case'' (load_cache demo_disk) io_start
       = (Some 205, load_cache demo_disk, io_start\<lparr>clock_reads := 1\<rparr>)
   \<and> sent (snd (snd (fetch_price_eur cents_py demo_env ''Horizon Case'' (load_cache demo_disk)
        io_start))) \<noteq> sent io_start
   \<and> load_cache demo_disk ''Horizon Case'' = None"
proof -
  have h: "load_cache demo_disk ''Prisma Case'' = Some \<lparr>price_eur = 205, ts = 169999900000\<rparr>
    \<and> float_lt_int cents_py (float_sub cents_py (time_time demo_env (clock_reads io_start))
          (ts \<lparr>price_eur = 205, ts = 169999900000\<rparr>)) 3600"
    using demo_fresh by (simp add: demo_cache fresh_def CACHE_TTL_def)
  have m: "\<not> hit cents_py (time_time demo_env (clock_reads io_start)) (load_cache demo_disk)
             ''Horizon Case''"
    by (simp add: hit_def demo_cache)
  have s: "sent (snd (snd (fetch_price_eur cents_py demo_env ''Horizon Case''
             (load_cache demo_disk) io_start))) \<noteq> sent io_start"
    by (simp add: fetch_no_hit [OF m] Let_def) (simp add: io_start_def demo_steam)
  from fresh_entry_served_without_request
         [of "load_cache demo_disk" "''Prisma Case''" cents_py demo_env io_start]
       h s
  show ?thesis by (simp add: demo_cache) (simp add: io_start_def)
qed

text \<open>
  C3. When there is no cache hit, so that the upstream is asked, and the lookup fails
  with any exception, \<^verbatim>\<open>fetch_price_eur\<close> returns \<^verbatim>\<open>None\<close> and the cache is the one
  it was given: no entry added, removed or changed. It has sent one request and printed
  one warning. Called again, it asks the upstream again unless the cache, unchanged,
  has a hit at the new reading of the clock.
\<close>

theorem failed_lookup_leaves_cache:
  assumes "\<not> hit rt (time_time env (clock_reads io0)) cache item_name"
    and "steam_price rt (requests_get env (length (sent io0)) (price_url item_name)) = Inl exc"
  shows "fetch_price_eur rt env item_name cache io0
      = (None, cache,
         io0\<lparr>clock_reads := Suc (clock_reads io0),
             sent := sent io0 @ [price_url item_name],
             printed := printed io0 @ [(item_name, exc)]\<rparr>)
    \<and> (\<not> hit rt (time_time env (Suc (clock_reads io0))) cache item_name
       \<longrightarrow> sent (snd (snd (fetch_price_eur rt env item_name
                  (fst (snd (fetch_price_eur rt env item_name cache io0)))
                  (snd (snd (fetch_price_eur rt env item_name cache io0))))))
            = sent io0 @ [price_url item_name, price_url item_name])"
proof -
  let ?io1 = "io0\<lparr>clock_reads := Suc (clock_reads io0),
                  sent := sent io0 @ [price_url item_name],
                  printed := printed io0 @ [(item_name, exc)]\<rparr>"
  have 1: "fetch_price_eur rt env item_name cache io0 = (None, cache, ?io1)"
    using assms by (simp add: fetch_no_hit Let_def)
  have "sent (snd (snd (fetch_price_eur rt env item_name cache ?io1)))
          = sent io0 @ [price_url item_name, price_url item_name]"
    if "\<not> hit rt (time_time env (Suc (clock_reads io0))) cache item_name"
  proof -
    from that have "\<not> hit rt (time_time env (clock_reads ?io1)) cache item_name"
      by simp
    from fetch_no_hit [OF this] show ?thesis
      by (simp add: Let_def split: sum.splits)
  qed
  with 1 show ?thesis by simp
qed

theorem failed_lookup_leaves_cache_witness:
  "\<not> hit cents_py (time_time down_env (clock_reads io_start)) (load_cache demo_disk) ''Clutch Case''
   \<and> steam_price cents_py (requests_get down_env (length (sent io_start)) (price_url ''Clutch Case''))
       = Inl RequestException
   \<and> fetch_price_eur cents_py down_env ''Clutch Case'' (load_cache demo_disk) io_start
       = (None, load_cache demo_disk,
          \<lparr>clock_reads = 1, sent = [price_url ''Clutch Case''],
           printed = [(''Clutch Case'', RequestException)]\<rparr>)
   \<and> sent (snd (snd (fetch_price_eur cents_py down_env ''Clutch Case'' (load_cache demo_disk)
        \<lparr>clock_reads = 1, sent = [price_url ''Clutch Case''],
         printed = [(''Clutch Case'', RequestException)]\<rparr>)))
       = [price_url ''Clutch Case'', price_url ''Clutch Case'']"
proof -
  have h: "\<not> hit cents_py (time_time down_env (clock_reads io_start)) (load_cache demo_disk)
             ''Clutch Case''"
    by (simp add: hit_def demo_cache)
  have h': "\<not> hit cents_py (time_time down_env (Suc (clock_reads io_start))) (load_cache demo_disk)
             ''Clutch Case''"
    by (simp add: hit_def demo_cache)
  note t = failed_lookup_leaves_cache [OF h down_steam]
  from t [THEN conjunct2] h h'
  show ?thesis by (simp add: t [THEN conjunct1] down_steam) (simp add: io_start_def)
qed

text \<open>
  C6. When the cache file is missing, unreadable or not parsable as JSON,
  \<^verbatim>\<open>_load_cache\<close> returns the empty dict (it has no exception to raise: the model's
  function is total). A lookup on that cache which the upstream answers with a price
  \<open>p\<close> returns \<open>p\<close> and leaves a cache whose only entry is the item's, with \<open>p\<close> and
  the time of the lookup; \<^verbatim>\<open>_save_cache\<close> then puts that cache in place of the file.
\<close>

theorem unusable_cache_file_is_empty_cache:
  assumes "cache_file d \<in> {None, Some Unreadable, Some NotJson}"
  shows "load_cache d = Map.empty
    \<and> (\<forall>p. steam_price rt (requests_get env (length (sent io0)) (price_url item_name)) = Inr p
         \<longrightarrow> fetch_price_eur rt env item_name (load_cache d) io0
              = (Some p,
                 [item_name \<mapsto> \<lparr>price_eur = p, ts = time_time env (clock_reads io0)\<rparr>],
                 io0\<lparr>clock_reads := Suc (clock_reads io0),
                     sent := sent io0 @ [price_url item_name]\<rparr>)
           \<and> cache_file (save_cache
                 [item_name \<mapsto> \<lparr>price_eur = p, ts = time_time env (clock_reads io0)\<rparr>] d)
              = Some (Holds [item_name \<mapsto> \<lparr>price_eur = p, ts = time_time env (clock_reads io0)\<rparr>]))"
proof -
  from assms have e: "load_cache d = Map.empty"
    by (auto simp: load_cache_def)
  have "\<not> hit rt (time_time env (clock_reads io0)) Map.empty item_name"
    by (simp add: hit_def)
  then show ?thesis
    using e by (simp add: fetch_no_hit Let_def save_cache_def save_cache_steps_def run_steps_def
        open_w_tmp_def dump_tmp_def replace_tmp_def)
qed

theorem unusable_cache_file_is_empty_cache_witness:
  "cache_file corrupt_disk \<in> {None, Some Unreadable, Some NotJson}
   \<and> load_cache corrupt_disk = Map.empty
   \<and> fetch_price_eur cents_py demo_env ''Horizon Case'' (load_cache corrupt_disk) io_start
       = (Some 1234, [''Horizon Case'' \<mapsto> \<lparr>price_eur = 1234, ts = 170000000000\<rparr>],
          \<lparr>clock_reads = 1, sent = [price_url ''Horizon Case''], printed = []\<rparr>)"
proof -
  have h: "cache_file corrupt_disk \<in> {None, Some Unreadable, Some NotJson}"
    by (simp add: corrupt_disk_def)
  from unusable_cache_file_is_empty_cache [OF h, of cents_py demo_env io_start "''Horizon Case''"]
    h
  show ?thesis by (auto simp: io_start_def demo_steam demo_time)
qed

section \<open>The price parser\<close>











section \<open>A valuation with no price at all\<close>

lemma price_loop_all_fail:
  assumes "\<forall>k url. isl (steam_price rt (requests_get env k url))"
    and "\<forall>k nm. \<not> hit rt (time_time env k) cache nm"
  shows "price_loop rt env stock (cache, io0, its, gt) = (cache', io1, its', gt') \<Longrightarrow>
    cache' = cache \<and> gt' = gt \<and> its' = its @ map unpriced stock"
proof (induction stock arbitrary: io0 its)
  case Nil
  then show ?case by simp
next
  case (Cons a stock)
  obtain nm cnt where a: "a = (nm, cnt)" by (cases a)
  let ?url = "price_url nm"
  obtain exc where e: "steam_price rt (requests_get env (length (sent io0)) ?url) = Inl exc"
    using assms(1) by (metis isl_def)
  obtain i1 where f: "fetch_price_eur rt env nm cache io0 = (None, cache, i1)"
    using assms(2) e by (simp add: fetch_no_hit Let_def)
  from Cons.prems a f
  have "price_loop rt env stock
          (cache, i1, its @ [\<lparr>name = nm, count = cnt, price = None, total = None\<rparr>], gt)
        = (cache', io1, its', gt')"
    by (simp add: line_total_def)
  from Cons.IH [OF this] a show ?case by (simp add: unpriced_def)
qed

text \<open>
  C10. When every upstream lookup fails and the cache has no hit, so that the lookup
  fails for every inventory entry, \<^verbatim>\<open>api_prices\<close> still returns its response: every
  item has neither price nor total, and the grand total is \<^verbatim>\<open>round(0.0, 2)\<close>, a
  float, which is \<^verbatim>\<open>0.0\<close> as soon as the runtime rounds \<^verbatim>\<open>0.0\<close> to itself.
\<close>

theorem no_price_gives_zero_total:
  assumes "\<forall>k url. isl (steam_price rt (requests_get env k url))"
    and "\<forall>k nm. \<not> hit rt (time_time env k) (load_cache d) nm"
    and "round_ndigits rt (float_zero rt) 2 = float_zero rt"
  shows "grand_total (fst (api_prices rt env store d io0)) = float_zero rt
    \<and> items (fst (api_prices rt env store d io0)) = map unpriced INVENTORY"
proof -
  obtain cache io1 gt where
    l: "price_loop rt env INVENTORY (load_cache d, io0, [], float_zero rt)
          = (cache, io1, items (fst (api_prices rt env store d io0)), gt)"
    and g: "grand_total (fst (api_prices rt env store d io0)) = round_ndigits rt gt 2"
    using api_prices_result [of rt env d io0 store] by blast
  from price_loop_all_fail [OF assms(1,2) l] g assms(3) show ?thesis
    by simp
qed

theorem no_price_gives_zero_total_witness:
  "(\<forall>k url. isl (steam_price cents_py (requests_get down_env k url)))
   \<and> (\<forall>k nm. \<not> hit cents_py (time_time down_env k) (load_cache corrupt_disk) nm)
   \<and> round_ndigits cents_py (float_zero cents_py) 2 = float_zero cents_py
   \<and> grand_total (fst (api_prices cents_py down_env None corrupt_disk io_start)) = 0
   \<and> items (fst (api_prices cents_py down_env None corrupt_disk io_start))
       = [\<lparr>name = ''Horizon Case'', count = 1000, price = None, total = None\<rparr>,
          \<lparr>name = ''Danger Zone Case'', count = 1000, price = None, total = None\<rparr>,
          \<lparr>name = ''Prisma Case'', count = 1000, price = None, total = None\<rparr>,
          \<lparr>name = ''Spectrum 2 Case'', count = 150, price = None, total = None\<rparr>,
          \<lparr>name = ''Clutch Case'', count = 649, price = None, total = None\<rparr>,
          \<lparr>name = ''Falchion Case'', count = 142, price = None, total = None\<rparr>,
          \<lparr>name = ''Operation Breakout Weapon Case'', count = 100, price = None, total = None\<rparr>]"
proof -
  have 1: "\<forall>k url. isl (steam_price cents_py (requests_get down_env k url))"
    by (simp add: down_steam)
  have 2: "\<forall>k nm. \<not> hit cents_py (time_time down_env k) (load_cache corrupt_disk) nm"
    by (simp add: hit_def load_cache_def corrupt_disk_def)
  have 3: "round_ndigits cents_py (float_zero cents_py) 2 = float_zero cents_py"
    by (simp add: cents_py_def round_cents_def)
  from no_price_gives_zero_total [OF 1 2 3, of None io_start] 1 2 3
  show ?thesis by (simp add: INVENTORY_def unpriced_def) (simp add: cents_py_def)
qed

section \<open>Writes and crashes\<close>

lemma map_of_write_file: "map_of (write_file n c fs) = (map_of fs)(n \<mapsto> c)"
  by (induction fs) (auto simp: fun_eq_iff)

lemma save_cache_crash_safe:
  "cache_file (crash_after k (save_cache_steps cache) d) = cache_file d
   \<or> cache_file (crash_after k (save_cache_steps cache) d) = Some (Holds cache)"
proof -
  consider "k = 0" | "k = 1" | "k = 2" | "3 \<le> k" by linarith
  then show ?thesis
    by cases
       (simp_all add: crash_after_def save_cache_steps_def run_steps_def open_w_tmp_def
          dump_tmp_def replace_tmp_def numeral_2_eq_2)
qed

text \<open>
  C4. The cache write goes through the temporary file and \<^verbatim>\<open>os.replace\<close>: after any
  number of its steps the cache file is the old one or the whole new one. The snapshot
  write opens the snapshot's own path with \<^verbatim>\<open>open(filepath, "w")\<close>: after that step
  and before the dump is complete, the file at that path is empty, whatever it held,
  and the history endpoint reads it as a JSON error.
\<close>

theorem snapshot_write_is_in_place:
  "(\<forall>k. cache_file (crash_after k (save_cache_steps cache) d) = cache_file d
        \<or> cache_file (crash_after k (save_cache_steps cache) d) = Some (Holds cache))
   \<and> map_of (snapshots (crash_after 1 (save_snapshot_steps fname doc) d)) fname = Some NotJson
   \<and> read_snapshot rt (snapshots (crash_after 1 (save_snapshot_steps fname doc) d))
        (SNAPSHOT_DIR @ ''/'' @ fname) = Inl JSONDecodeError"
  using save_cache_crash_safe [of _ cache d]
  by (simp add: crash_after_def save_snapshot_steps_def run_steps_def open_w_snapshot_def
      map_of_write_file read_snapshot_def file_at_def SNAPSHOT_DIR_def)

section \<open>The history listing\<close>

lemma history_loop_eq:
  "history_loop rt dir paths (history, warned)
    = (history @ entries_of rt dir paths, warned @ warnings_of rt dir paths)"
  by (induction paths arbitrary: history warned)
     (auto simp: entries_of_def warnings_of_def map_filter_def split: sum.splits)

lemma api_history_eq:
  "api_history rt dir
    = (entries_of rt dir (sort (glob dir)), warnings_of rt dir (sort (glob dir)))"
  by (simp add: api_history_def history_loop_eq)

lemma entries_of_append:
  "entries_of rt dir (ps @ qs) = entries_of rt dir ps @ entries_of rt dir qs"
  by (simp add: entries_of_def map_filter_def)

lemma read_snapshot_Inr:
  "read_snapshot rt dir p = Inr e \<Longrightarrow>
    \<exists>data t. file_at dir p = Some (Holds data) \<and> strptime rt (stamp_of p) = Some t
      \<and> entry_ts e = strftime_minute rt t
      \<and> subscript data ''grand_total'' = Inr (entry_grand_total e)"
  by (auto simp: read_snapshot_def split: option.splits on_disk.splits sum.splits)

lemma entry_ts_times:
  "map entry_ts (entries_of rt dir ps) = map (strftime_minute rt) (times_of rt dir ps)"
proof (induction ps)
  case Nil
  then show ?case by (simp add: entries_of_def times_of_def map_filter_def)
next
  case (Cons p ps)
  show ?case
  proof (cases "read_snapshot rt dir p")
    case (Inl exc)
    with Cons show ?thesis by (simp add: entries_of_def times_of_def map_filter_def)
  next
    case (Inr e)
    from read_snapshot_Inr [OF this] Inr Cons show ?thesis
      by (auto simp: entries_of_def times_of_def map_filter_def)
  qed
qed

lemma sorted_map_filter:
  assumes "sorted ps"
    and "\<And>p q a b. p \<in> set ps \<Longrightarrow> q \<in> set ps \<Longrightarrow> p \<le> q \<Longrightarrow> f p = Some a \<Longrightarrow> f q = Some b
           \<Longrightarrow> k a \<le> k b"
  shows "sorted (map k (List.map_filter f ps))"
  using assms
proof (induction ps)
  case Nil
  then show ?case by (simp add: map_filter_def)
next
  case (Cons p ps)
  have ih: "sorted (map k (List.map_filter f ps))"
    using Cons by auto
  show ?case
  proof (cases "f p")
    case None
    with ih show ?thesis by (simp add: map_filter_def)
  next
    case (Some a)
    have "\<forall>b \<in> set (List.map_filter f ps). k a \<le> k b"
    proof
      fix b assume "b \<in> set (List.map_filter f ps)"
      then obtain q where q: "q \<in> set ps" "f q = Some b"
        by (auto simp: map_filter_def)
      with Cons.prems(1) have "p \<le> q" by auto
      with Cons.prems(2) [of p q a b] q Some show "k a \<le> k b" by simp
    qed
    with ih Some show ?thesis by (simp add: map_filter_def)
  qed
qed

lemma num_foldl:
  "foldl (\<lambda>n c. 10 * n + digit_val c) n s = n * 10 ^ length s + num s"
proof (induction s arbitrary: n)
  case Nil
  then show ?case by (simp add: num_def)
next
  case (Cons c s)
  have "foldl (\<lambda>n c. 10 * n + digit_val c) n (c # s) = (10 * n + digit_val c) * 10 ^ length s + num s"
    using Cons [of "10 * n + digit_val c"] by simp
  moreover have "num (c # s) = digit_val c * 10 ^ length s + num s"
    using Cons [of "digit_val c"] by (simp add: num_def)
  ultimately show ?case by (simp add: algebra_simps)
qed

lemma num_Cons: "num (c # s) = digit_val c * 10 ^ length s + num s"
  using num_foldl [of "digit_val c" s] by (simp add: num_def)

lemma num_Nil: "num [] = 0"
  by (simp add: num_def)

lemma digit_val_le: "is_digit c \<Longrightarrow> digit_val c \<le> 9"
  by (auto simp: is_digit_def digit_val_def less_eq_char_def)

lemma digit_val_less: "is_digit c \<Longrightarrow> is_digit c' \<Longrightarrow> (c < c') = (digit_val c < digit_val c')"
  by (auto simp: is_digit_def digit_val_def less_eq_char_def less_char_def)

lemma digit_val_eq: "is_digit c \<Longrightarrow> is_digit c' \<Longrightarrow> (c = c') = (digit_val c = digit_val c')"
proof -
  assume d: "is_digit c" "is_digit c'"
  define a b where ab: "a = (of_char c :: nat)" "b = (of_char c' :: nat)"
  from d have "48 \<le> a" "48 \<le> b"
    by (auto simp: ab is_digit_def less_eq_char_def)
  then have "(a - 48 = b - 48) = (a = b)"
    by arith
  moreover have "(a = b) = (c = c')"
    by (simp add: ab)
  ultimately show ?thesis
    by (simp add: digit_val_def ab)
qed

lemma num_bound: "list_all is_digit s \<Longrightarrow> num s < 10 ^ length s"
proof (induction s)
  case Nil
  then show ?case by (simp add: num_Nil)
next
  case (Cons c s)
  then have "digit_val c \<le> 9" "num s < 10 ^ length s"
    by (auto simp: digit_val_le)
  then have "digit_val c * 10 ^ length s + num s < 9 * 10 ^ length s + 10 ^ length s"
    by (meson add_le_less_mono mult_le_mono1)
  then show ?case by (simp add: num_Cons)
qed

lemma lex_num:
  "length a = length b \<Longrightarrow> list_all is_digit a \<Longrightarrow> list_all is_digit b \<Longrightarrow>
    (a < b \<longleftrightarrow> num a < num b) \<and> (a = b \<longleftrightarrow> num a = num b)"
proof (induction a b rule: list_induct2)
  case Nil
  then show ?case by (simp add: num_Nil)
next
  case (Cons x xs y ys)
  let ?P = "(10::nat) ^ length xs"
  have d: "is_digit x" "is_digit y" and ih: "(xs < ys \<longleftrightarrow> num xs < num ys)" "(xs = ys \<longleftrightarrow> num xs = num ys)"
    using Cons by auto
  have bx: "num xs < ?P" and by': "num ys < ?P"
    using Cons num_bound [of xs] num_bound [of ys] by auto
  have lt: "digit_val x < digit_val y \<Longrightarrow> digit_val x * ?P + num xs < digit_val y * ?P + num ys"
  proof -
    assume "digit_val x < digit_val y"
    then have "Suc (digit_val x) \<le> digit_val y" by simp
    then have "Suc (digit_val x) * ?P \<le> digit_val y * ?P"
      by (rule mult_le_mono1)
    with bx show ?thesis by simp
  qed
  have gt: "digit_val y < digit_val x \<Longrightarrow> digit_val y * ?P + num ys < digit_val x * ?P + num xs"
  proof -
    assume "digit_val y < digit_val x"
    then have "Suc (digit_val y) \<le> digit_val x" by simp
    then have "Suc (digit_val y) * ?P \<le> digit_val x * ?P"
      by (rule mult_le_mono1)
    with by' show ?thesis by simp
  qed
  consider "digit_val x < digit_val y" | "digit_val y < digit_val x" | "digit_val x = digit_val y"
    by linarith
  then show ?case
  proof cases
    case 1
    with lt d show ?thesis
      using digit_val_less [of x y] digit_val_eq [of x y] Cons.hyps
      by (auto simp: num_Cons)
  next
    case 2
    with gt d show ?thesis
      using digit_val_less [of x y] digit_val_eq [of x y] Cons.hyps
      by (auto simp: num_Cons)
  next
    case 3
    with d ih show ?thesis
      using digit_val_less [of x y] digit_val_eq [of x y] Cons.hyps
      by (auto simp: num_Cons)
  qed
qed

section \<open>Snapshot file names\<close>

lemma append_le_blocks:
  fixes a a' b b' :: "'a::linorder list"
  shows "length a = length a' \<Longrightarrow> (a @ b \<le> a' @ b') = (a < a' \<or> (a = a' \<and> b \<le> b'))"
  by (induction a a' rule: list_induct2) auto

lemma append_le_same:
  fixes x y :: "'a::linorder list"
  shows "(a @ x \<le> a @ y) = (x \<le> y)"
  by (induction a) auto

lemma glob_match_split:
  assumes "glob_match n"
  shows "n = ''csgo_snapshot_'' @ name_stamp n @ ''.json''"
proof -
  from assms have len: "19 \<le> length n" and pre: "take 14 n = ''csgo_snapshot_''"
    and suf: "drop (length n - 5) n = ''.json''"
    by (simp_all add: glob_match_def)
  have 1: "name_stamp n = take (length n - 19) (drop 14 n)"
    by (simp add: name_stamp_def drop_take)
  have 2: "drop (length n - 19) (drop 14 n) = drop (length n - 5) n"
    using len by simp
  have "n = take 14 n @ drop 14 n"
    by simp
  also have "drop 14 n = take (length n - 19) (drop 14 n) @ drop (length n - 19) (drop 14 n)"
    by (rule append_take_drop_id [symmetric])
  finally have "n = take 14 n @ name_stamp n @ drop (length n - 5) n"
    by (simp only: 1 2)
  then show ?thesis
    by (simp only: pre suf)
qed

lemma fixed_width_chars:
  assumes f: "fixed_width s" and c: "c \<in> set s"
  shows "is_digit c \<or> c = CHR ''_''"
proof -
  from c obtain i where i: "i < length s" "s ! i = c"
    by (auto simp: in_set_conv_nth)
  consider "i < 8" | "i = 8" | "9 \<le> i" by linarith
  then show ?thesis
  proof cases
    case 1
    with f have "is_digit (take 8 s ! i)"
      by (simp add: fixed_width_def list_all_length)
    with 1 i show ?thesis by simp
  next
    case 2
    with f i show ?thesis by (simp add: fixed_width_def)
  next
    case 3
    from f have "\<forall>k < length (drop 9 s). is_digit (drop 9 s ! k)"
      unfolding fixed_width_def list_all_length by blast
    from this [THEN spec, of "i - 9"] 3 i f show ?thesis
      by (simp add: fixed_width_def)
  qed
qed

lemma basename_plain:
  assumes "CHR ''/'' \<notin> set n"
  shows "basename (d @ CHR ''/'' # n) = n"
proof -
  have "takeWhile (\<lambda>c. c \<noteq> CHR ''/'') (rev n @ CHR ''/'' # rev d)
          = rev n @ takeWhile (\<lambda>c. c \<noteq> CHR ''/'') (CHR ''/'' # rev d)"
    by (rule takeWhile_append2) (use assms in auto)
  then show ?thesis
    by (simp add: basename_def)
qed

lemma glob_name_plain:
  assumes "glob_match n" "fixed_width (name_stamp n)"
  shows "CHR ''/'' \<notin> set n"
proof -
  define st where "st = name_stamp n"
  have n: "n = ''csgo_snapshot_'' @ st @ ''.json''"
    using glob_match_split [OF assms(1)] by (simp add: st_def)
  have "CHR ''/'' \<notin> set st"
    using fixed_width_chars [OF assms(2), of "CHR ''/''"] by (auto simp: is_digit_def st_def)
  then have "CHR ''/'' \<notin> set (''csgo_snapshot_'' @ st @ ''.json'')"
    by simp
  then show ?thesis
    by (subst n)
qed

lemma stamp_of_glob:
  assumes "glob_match n" "fixed_width (name_stamp n)"
  shows "stamp_of (SNAPSHOT_DIR @ ''/'' @ n) = name_stamp n"
  using glob_name_plain [OF assms]
  by (simp add: stamp_of_def basename_plain name_stamp_def Let_def)

section \<open>Order of the timestamps\<close>

lemma strptime_fixed:
  assumes "fixed_width s" "strptime rt s = Some t"
  shows "minute_key t = (num (take 4 s), num (take 2 (drop 4 s)), num (take 2 (drop 6 s)),
                         num (take 2 (drop 9 s)), num (take 2 (drop 11 s)))"
  using assms by (auto simp: strptime_def minute_key_def Let_def split: if_splits)

lemma length_15:
  "length s = 15 \<Longrightarrow>
    \<exists>c0 c1 c2 c3 c4 c5 c6 c7 c8 c9 c10 c11 c12 c13 c14.
      s = [c0, c1, c2, c3, c4, c5, c6, c7, c8, c9, c10, c11, c12, c13, c14]"
  by (simp add: eval_nat_numeral length_Suc_conv) blast

lemma fixed_width_blocks:
  assumes "fixed_width s"
  obtains Y M D H I E where
    "s = Y @ M @ D @ ''_'' @ H @ I @ E"
    "length Y = 4" "length M = 2" "length D = 2" "length H = 2" "length I = 2" "length E = 2"
    "list_all is_digit Y" "list_all is_digit M" "list_all is_digit D"
    "list_all is_digit H" "list_all is_digit I"
    "take 4 s = Y" "take 2 (drop 4 s) = M" "take 2 (drop 6 s) = D"
    "take 2 (drop 9 s) = H" "take 2 (drop 11 s) = I"
proof -
  from assms have "length s = 15" by (simp add: fixed_width_def)
  from length_15 [OF this] obtain c0 c1 c2 c3 c4 c5 c6 c7 c8 c9 c10 c11 c12 c13 c14 where
    s: "s = [c0, c1, c2, c3, c4, c5, c6, c7, c8, c9, c10, c11, c12, c13, c14]"
    by blast
  from assms have d: "is_digit c0" "is_digit c1" "is_digit c2" "is_digit c3" "is_digit c4"
    "is_digit c5" "is_digit c6" "is_digit c7" "c8 = CHR ''_''" "is_digit c9" "is_digit c10"
    "is_digit c11" "is_digit c12"
    by (simp_all add: fixed_width_def s)
  show thesis
    by (rule that [of "[c0, c1, c2, c3]" "[c4, c5]" "[c6, c7]" "[c9, c10]" "[c11, c12]"
             "[c13, c14]"])
       (simp_all add: s d)
qed

lemma stamp_le_minute_key:
  assumes f: "fixed_width s" and f': "fixed_width s'" and le: "s \<le> s'"
    and t: "strptime rt s = Some t" and t': "strptime rt s' = Some t'"
  shows "minute_key t \<le> minute_key t'"
proof -
  from f obtain Y M D H I E where
    s: "s = Y @ M @ D @ ''_'' @ H @ I @ E"
    and l: "length Y = 4" "length M = 2" "length D = 2" "length H = 2" "length I = 2"
    and g: "list_all is_digit Y" "list_all is_digit M" "list_all is_digit D"
      "list_all is_digit H" "list_all is_digit I"
    and k: "take 4 s = Y" "take 2 (drop 4 s) = M" "take 2 (drop 6 s) = D"
      "take 2 (drop 9 s) = H" "take 2 (drop 11 s) = I"
    by (rule fixed_width_blocks)
  from f' obtain Y' M' D' H' I' E' where
    s': "s' = Y' @ M' @ D' @ ''_'' @ H' @ I' @ E'"
    and l': "length Y' = 4" "length M' = 2" "length D' = 2" "length H' = 2" "length I' = 2"
    and g': "list_all is_digit Y'" "list_all is_digit M'" "list_all is_digit D'"
      "list_all is_digit H'" "list_all is_digit I'"
    and k': "take 4 s' = Y'" "take 2 (drop 4 s') = M'" "take 2 (drop 6 s') = D'"
      "take 2 (drop 9 s') = H'" "take 2 (drop 11 s') = I'"
    by (rule fixed_width_blocks)
  have key: "minute_key t = (num Y, num M, num D, num H, num I)"
    "minute_key t' = (num Y', num M', num D', num H', num I')"
    using strptime_fixed [OF f t] strptime_fixed [OF f' t'] by (simp_all only: k k')
  have eqs: "length Y = length Y'" "length M = length M'" "length D = length D'"
    "length H = length H'" "length I = length I'"
    by (simp_all only: l l')
  note bY = append_le_blocks [OF eqs(1)] and bM = append_le_blocks [OF eqs(2)]
    and bD = append_le_blocks [OF eqs(3)] and bH = append_le_blocks [OF eqs(4)]
    and bI = append_le_blocks [OF eqs(5)]
    and bU = append_le_same [of "''_''"]
  from le have "Y @ M @ D @ ''_'' @ H @ I @ E \<le> Y' @ M' @ D' @ ''_'' @ H' @ I' @ E'"
    by (simp only: s s')
  then have 1: "Y < Y' \<or> Y = Y' \<and> (M < M' \<or> M = M' \<and> (D < D' \<or> D = D'
      \<and> (H < H' \<or> H = H' \<and> (I < I' \<or> I = I' \<and> E \<le> E'))))"
    by (simp only: bY bM bD bU bH bI)
  have n: "(Y < Y') = (num Y < num Y')" "(Y = Y') = (num Y = num Y')"
    "(M < M') = (num M < num M')" "(M = M') = (num M = num M')"
    "(D < D') = (num D < num D')" "(D = D') = (num D = num D')"
    "(H < H') = (num H < num H')" "(H = H') = (num H = num H')"
    "(I < I') = (num I < num I')" "(I = I') = (num I = num I')"
    using lex_num [OF eqs(1) g(1) g'(1)] lex_num [OF eqs(2) g(2) g'(2)]
      lex_num [OF eqs(3) g(3) g'(3)] lex_num [OF eqs(4) g(4) g'(4)]
      lex_num [OF eqs(5) g(5) g'(5)]
    by blast+
  from 1 have "num Y < num Y' \<or> num Y = num Y' \<and> (num M < num M' \<or> num M = num M'
      \<and> (num D < num D' \<or> num D = num D'
      \<and> (num H < num H' \<or> num H = num H' \<and> (num I < num I' \<or> num I = num I'))))"
    unfolding n by blast
  then show ?thesis
    unfolding key less_eq_prod_simp by linarith
qed

section \<open>The history: every snapshot, in order\<close>

lemma glob_set:
  "set (glob dir) = (\<lambda>n. SNAPSHOT_DIR @ ''/'' @ n) ` {n \<in> fst ` set dir. glob_match n}"
  by (auto simp: glob_def)

lemma entries_warnings_length:
  "length (entries_of rt dir ps) + length (warnings_of rt dir ps) = length ps"
  by (induction ps) (auto simp: entries_of_def warnings_of_def map_filter_def split: sum.splits)

text \<open>What one file comes to, read off the \<^verbatim>\<open>try\<close> block in both directions.\<close>

lemma read_snapshot_entry:
  "read_snapshot rt dir p = Inr e \<longleftrightarrow>
    (\<exists>data t. file_at dir p = Some (Holds data) \<and> strptime rt (stamp_of p) = Some t
       \<and> subscript data ''grand_total'' = Inr (entry_grand_total e)
       \<and> entry_ts e = strftime_minute rt t)"
  by (cases e)
     (auto simp: read_snapshot_def split: option.splits on_disk.splits sum.splits)

lemma read_snapshot_warning:
  "read_snapshot rt dir p = Inl exc \<longleftrightarrow>
    ((file_at dir p = None \<or> file_at dir p = Some Unreadable) \<and> exc = OSError)
    \<or> (file_at dir p = Some NotJson \<and> exc = JSONDecodeError)
    \<or> (\<exists>data. file_at dir p = Some (Holds data) \<and> strptime rt (stamp_of p) = None
          \<and> exc = ValueError)
    \<or> (\<exists>data t. file_at dir p = Some (Holds data) \<and> strptime rt (stamp_of p) = Some t
          \<and> subscript data ''grand_total'' = Inl exc)"
  by (auto simp: read_snapshot_def split: option.splits on_disk.splits sum.splits)

lemma entries_of_set:
  "set (entries_of rt dir ps) = {e. \<exists>p \<in> set ps. read_snapshot rt dir p = Inr e}"
proof (induction ps)
  case Nil
  then show ?case by (simp add: entries_of_def map_filter_def)
next
  case (Cons p ps)
  have "entries_of rt dir (p # ps)
      = (case read_snapshot rt dir p of Inr e \<Rightarrow> [e] | Inl exc \<Rightarrow> []) @ entries_of rt dir ps"
    by (simp add: entries_of_def map_filter_def split: sum.splits)
  with Cons show ?case
    by (auto split: sum.splits)
qed

lemma warnings_of_set:
  "set (warnings_of rt dir ps) = {(p, exc). p \<in> set ps \<and> read_snapshot rt dir p = Inl exc}"
proof (induction ps)
  case Nil
  then show ?case by (simp add: warnings_of_def map_filter_def)
next
  case (Cons p ps)
  have "warnings_of rt dir (p # ps)
      = (case read_snapshot rt dir p of Inr e \<Rightarrow> [] | Inl exc \<Rightarrow> [(p, exc)])
        @ warnings_of rt dir ps"
    by (simp add: warnings_of_def map_filter_def split: sum.splits)
  with Cons show ?case
    by (auto split: sum.splits)
qed

lemma times_sorted:
  assumes fw: "\<forall>n \<in> fst ` set dir.
      glob_match n \<and> \<not> isl (read_snapshot rt dir (SNAPSHOT_DIR @ ''/'' @ n))
      \<longrightarrow> fixed_width (name_stamp n)"
  shows "sorted (map minute_key (times_of rt dir (sort (glob dir))))"
  unfolding times_of_def
proof (rule sorted_map_filter)
  show "sorted (sort (glob dir))" by simp
next
  fix p q a b
  assume p: "p \<in> set (sort (glob dir))" and q: "q \<in> set (sort (glob dir))" and le: "p \<le> q"
    and a: "(case read_snapshot rt dir p of Inl exc \<Rightarrow> None | Inr e \<Rightarrow> strptime rt (stamp_of p)) = Some a"
    and b: "(case read_snapshot rt dir q of Inl exc \<Rightarrow> None | Inr e \<Rightarrow> strptime rt (stamp_of q)) = Some b"
  from a have rp: "\<not> isl (read_snapshot rt dir p)" by (auto split: sum.splits)
  from b have rq: "\<not> isl (read_snapshot rt dir q)" by (auto split: sum.splits)
  from p rp obtain n where n: "p = SNAPSHOT_DIR @ ''/'' @ n" "glob_match n" "fixed_width (name_stamp n)"
    using fw by (auto simp: glob_set)
  from q rq obtain m where m: "q = SNAPSHOT_DIR @ ''/'' @ m" "glob_match m" "fixed_width (name_stamp m)"
    using fw by (auto simp: glob_set)
  have sp: "stamp_of p = name_stamp n" and sq: "stamp_of q = name_stamp m"
    using stamp_of_glob n m by simp_all
  from a b have ta: "strptime rt (name_stamp n) = Some a" and tb: "strptime rt (name_stamp m) = Some b"
    by (simp_all add: sp sq split: sum.splits)
  have ln: "length (name_stamp n) = length (name_stamp m)"
    using n(3) m(3) by (simp add: fixed_width_def)
  from le have "(SNAPSHOT_DIR @ ''/'' @ ''csgo_snapshot_'') @ (name_stamp n @ ''.json'')
      \<le> (SNAPSHOT_DIR @ ''/'' @ ''csgo_snapshot_'') @ (name_stamp m @ ''.json'')"
    using glob_match_split [OF n(2)] glob_match_split [OF m(2)] n(1) m(1)
    by (metis append.assoc)
  then have "name_stamp n @ ''.json'' \<le> name_stamp m @ ''.json''"
    by (simp only: append_le_same)
  then have "name_stamp n \<le> name_stamp m"
    unfolding append_le_blocks [OF ln] by auto
  from stamp_le_minute_key [OF n(3) m(3) this ta tb]
  show "minute_key a \<le> minute_key b" .
qed


lemma demo_glob:
  "sort (glob demo_dir) =
    [''snapshots/csgo_snapshot_.json'',
     ''snapshots/csgo_snapshot_20250710_080000.json'',
     ''snapshots/csgo_snapshot_20250711_123045.json'',
     ''snapshots/csgo_snapshot_20250712_000000.json'',
     ''snapshots/csgo_snapshot_20250713_000000.json'']"
  by (simp add: glob_def demo_dir_def glob_match_def SNAPSHOT_DIR_def less_eq_char_def
      less_char_def)

lemma demo_stray:
  "read_snapshot cents_py demo_dir (SNAPSHOT_DIR @ ''/'' @ ''csgo_snapshot_.json'')
    = Inl ValueError"
  by (simp add: read_snapshot_def file_at_def SNAPSHOT_DIR_def demo_dir_def stamp_of_def
      basename_def strptime_def fixed_width_def cents_py_def)

lemma demo_listed_fixed_width:
  "\<forall>n \<in> fst ` set demo_dir.
     glob_match n \<and> \<not> isl (read_snapshot cents_py demo_dir (SNAPSHOT_DIR @ ''/'' @ n))
     \<longrightarrow> fixed_width (name_stamp n)"
  using demo_stray
  by (simp add: demo_dir_def glob_match_def name_stamp_def fixed_width_def is_digit_def
      less_eq_char_def)

lemma demo_history:
  "api_history cents_py demo_dir =
    ([\<lparr>entry_ts = ''2025-07-10 08:00'', entry_grand_total = JFloat 1400000\<rparr>,
      \<lparr>entry_ts = ''2025-07-11 12:30'', entry_grand_total = JFloat 1442000\<rparr>],
     [(''snapshots/csgo_snapshot_.json'', ValueError),
      (''snapshots/csgo_snapshot_20250712_000000.json'', JSONDecodeError),
      (''snapshots/csgo_snapshot_20250713_000000.json'', TypeError)])"
  by (simp add: api_history_def demo_glob)
     (simp add: read_snapshot_def file_at_def SNAPSHOT_DIR_def demo_dir_def stamp_of_def
        basename_def strptime_def fixed_width_def is_digit_def less_eq_char_def num_def
        digit_val_def valid_datetime_def days_in_month_def is_leap_def strftime_minute_def
        format_year_def pad_def dec.simps digit_char_def Let_def cents_py_def)

text \<open>
  C5. \<^verbatim>\<open>api_history\<close> visits the files of the snapshot directory whose names match
  \<^verbatim>\<open>csgo_snapshot_*.json\<close>, all of them, in the lexicographic order of their paths,
  and always returns. A file gives an entry exactly when it holds a JSON document, the
  stamp in its name parses and the document has the key \<^verbatim>\<open>grand_total\<close>: the entry
  then has the timestamp parsed from the name and that value, and it is in the history.
  Every other matching file is skipped and gives a warning: an unreadable file, a file
  that is not JSON, a name that does not parse, a document without the key. When the
  names of the files that give an entry carry a stamp of the fixed width, whatever the
  skipped files are called, the timestamps of the entries are in non-decreasing order.
\<close>

theorem history_lists_snapshots_in_order:
  "api_history rt dir = (entries_of rt dir (sort (glob dir)), warnings_of rt dir (sort (glob dir)))
   \<and> set (sort (glob dir))
       = (\<lambda>n. SNAPSHOT_DIR @ ''/'' @ n) ` {n \<in> fst ` set dir. glob_match n}
   \<and> sorted (sort (glob dir))
   \<and> length (fst (api_history rt dir)) + length (snd (api_history rt dir)) = length (glob dir)
   \<and> (\<forall>p e. read_snapshot rt dir p = Inr e \<longleftrightarrow>
         (\<exists>data t. file_at dir p = Some (Holds data) \<and> strptime rt (stamp_of p) = Some t
            \<and> subscript data ''grand_total'' = Inr (entry_grand_total e)
            \<and> entry_ts e = strftime_minute rt t))
   \<and> (\<forall>p exc. read_snapshot rt dir p = Inl exc \<longleftrightarrow>
         ((file_at dir p = None \<or> file_at dir p = Some Unreadable) \<and> exc = OSError)
         \<or> (file_at dir p = Some NotJson \<and> exc = JSONDecodeError)
         \<or> (\<exists>data. file_at dir p = Some (Holds data) \<and> strptime rt (stamp_of p) = None
               \<and> exc = ValueError)
         \<or> (\<exists>data t. file_at dir p = Some (Holds data) \<and> strptime rt (stamp_of p) = Some t
               \<and> subscript data ''grand_total'' = Inl exc))
   \<and> (\<forall>p \<in> set (glob dir). \<forall>data t g.
         file_at dir p = Some (Holds data) \<and> strptime rt (stamp_of p) = Some t
         \<and> subscript data ''grand_total'' = Inr g
         \<longrightarrow> \<lparr>entry_ts = strftime_minute rt t, entry_grand_total = g\<rparr>
               \<in> set (fst (api_history rt dir)))
   \<and> (\<forall>p \<in> set (glob dir). \<forall>exc.
         read_snapshot rt dir p = Inl exc \<longrightarrow> (p, exc) \<in> set (snd (api_history rt dir)))
   \<and> set (fst (api_history rt dir))
       = {e. \<exists>p \<in> set (glob dir). read_snapshot rt dir p = Inr e}
   \<and> map entry_ts (fst (api_history rt dir))
       = map (strftime_minute rt) (times_of rt dir (sort (glob dir)))
   \<and> ((\<forall>n \<in> fst ` set dir.
          glob_match n \<and> \<not> isl (read_snapshot rt dir (SNAPSHOT_DIR @ ''/'' @ n))
          \<longrightarrow> fixed_width (name_stamp n))
        \<longrightarrow> sorted (map minute_key (times_of rt dir (sort (glob dir)))))"
proof -
  have h: "api_history rt dir
      = (entries_of rt dir (sort (glob dir)), warnings_of rt dir (sort (glob dir)))"
    by (rule api_history_eq)
  have 1: "set (sort (glob dir))
      = (\<lambda>n. SNAPSHOT_DIR @ ''/'' @ n) ` {n \<in> fst ` set dir. glob_match n}"
    by (simp add: glob_set)
  have 2: "length (fst (api_history rt dir)) + length (snd (api_history rt dir))
      = length (glob dir)"
    using entries_warnings_length [of rt dir "sort (glob dir)"] by (simp add: h)
  have 3: "\<forall>p \<in> set (glob dir). \<forall>data t g.
         file_at dir p = Some (Holds data) \<and> strptime rt (stamp_of p) = Some t
         \<and> subscript data ''grand_total'' = Inr g
         \<longrightarrow> \<lparr>entry_ts = strftime_minute rt t, entry_grand_total = g\<rparr>
               \<in> set (fst (api_history rt dir))"
  proof (intro ballI allI impI)
    fix p data t g
    assume p: "p \<in> set (glob dir)"
      and f: "file_at dir p = Some (Holds data) \<and> strptime rt (stamp_of p) = Some t
        \<and> subscript data ''grand_total'' = Inr g"
    then have "read_snapshot rt dir p = Inr \<lparr>entry_ts = strftime_minute rt t, entry_grand_total = g\<rparr>"
      by (simp add: read_snapshot_def)
    with p show "\<lparr>entry_ts = strftime_minute rt t, entry_grand_total = g\<rparr>
        \<in> set (fst (api_history rt dir))"
      by (auto simp: h entries_of_set)
  qed
  have 4: "\<forall>p \<in> set (glob dir). \<forall>exc.
         read_snapshot rt dir p = Inl exc \<longrightarrow> (p, exc) \<in> set (snd (api_history rt dir))"
    by (simp add: h warnings_of_set)
  have 5: "set (fst (api_history rt dir))
      = {e. \<exists>p \<in> set (glob dir). read_snapshot rt dir p = Inr e}"
    by (simp add: h entries_of_set)
  have 6: "map entry_ts (fst (api_history rt dir))
      = map (strftime_minute rt) (times_of rt dir (sort (glob dir)))"
    by (simp add: h entry_ts_times)
  note 7 = read_snapshot_entry [of rt dir] read_snapshot_warning [of rt dir]
  show ?thesis
    using times_sorted [of dir rt]
    by (intro conjI allI impI h 1 2 3 4 5 6 7) simp_all
qed

theorem history_lists_snapshots_in_order_witness:
  "api_history cents_py demo_dir =
    ([\<lparr>entry_ts = ''2025-07-10 08:00'', entry_grand_total = JFloat 1400000\<rparr>,
      \<lparr>entry_ts = ''2025-07-11 12:30'', entry_grand_total = JFloat 1442000\<rparr>],
     [(''snapshots/csgo_snapshot_.json'', ValueError),
      (''snapshots/csgo_snapshot_20250712_000000.json'', JSONDecodeError),
      (''snapshots/csgo_snapshot_20250713_000000.json'', TypeError)])
   \<and> \<not> fixed_width (name_stamp ''csgo_snapshot_.json'')
   \<and> sorted (map minute_key (times_of cents_py demo_dir (sort (glob demo_dir))))
   \<and> map (strftime_minute cents_py) (times_of cents_py demo_dir (sort (glob demo_dir)))
       = [''2025-07-10 08:00'', ''2025-07-11 12:30'']"
proof -
  note t = history_lists_snapshots_in_order [of cents_py demo_dir]
  have o: "sorted (map minute_key (times_of cents_py demo_dir (sort (glob demo_dir))))"
    using t demo_listed_fixed_width by blast
  have m: "map entry_ts (fst (api_history cents_py demo_dir))
      = map (strftime_minute cents_py) (times_of cents_py demo_dir (sort (glob demo_dir)))"
    using t by blast
  have n: "\<not> fixed_width (name_stamp ''csgo_snapshot_.json'')"
    by (simp add: name_stamp_def fixed_width_def)
  from o m n show ?thesis
    by (simp add: demo_history)
qed

section \<open>Formatting and parsing a timestamp\<close>

lemma digit_char_facts:
  assumes "d < 10"
  shows "is_digit (digit_char d)" and "digit_val (digit_char d) = d"
proof -
  from assms have c: "d = 0 \<or> d = 1 \<or> d = 2 \<or> d = 3 \<or> d = 4 \<or> d = 5 \<or> d = 6
    \<or> d = 7 \<or> d = 8 \<or> d = 9"
    by arith
  then show "is_digit (digit_char d)"
    by (elim disjE) (simp_all add: digit_char_def is_digit_def less_eq_char_def)
  from c show "digit_val (digit_char d) = d"
    by (elim disjE) (simp_all add: digit_char_def digit_val_def)
qed

lemma dec_small: "n < 10 \<Longrightarrow> dec n = [digit_char n]"
  by (simp add: dec.simps)

lemma pad_2: "n < 100 \<Longrightarrow> pad 2 n = [digit_char (n div 10), digit_char (n mod 10)]"
proof (cases "n < 10")
  case True
  then show ?thesis by (simp add: pad_def dec_small digit_char_def)
next
  case False
  assume "n < 100"
  then have "n div 10 < 10" by simp
  with False show ?thesis
    by (simp add: pad_def dec.simps [of n] dec_small)
qed

lemma dec_4:
  assumes "1000 \<le> n" "n \<le> 9999"
  shows "dec n = [digit_char (n div 1000), digit_char (n div 100 mod 10),
                  digit_char (n div 10 mod 10), digit_char (n mod 10)]"
proof -
  have a: "\<not> n < 10" "\<not> n div 10 < 10" "\<not> n div 10 div 10 < 10" "n div 10 div 10 div 10 < 10"
    using assms by simp_all
  have b: "n div 10 div 10 = n div 100" "n div 10 div 10 div 10 = n div 1000"
    "n div 100 div 10 = n div 1000"
    by (simp_all add: div_mult2_eq [symmetric])
  show ?thesis
    using a
    by (simp add: dec.simps [of n] dec.simps [of "n div 10"] dec.simps [of "n div 10 div 10"]
        dec_small)
       (simp add: b)
qed

lemma days_in_month_le: "days_in_month y m \<le> 31"
  by (simp add: days_in_month_def)

lemma strftime_stamp_explicit:
  assumes "valid_datetime t" "1000 \<le> year t"
  shows "strftime_stamp rt t =
    [digit_char (year t div 1000), digit_char (year t div 100 mod 10),
     digit_char (year t div 10 mod 10), digit_char (year t mod 10),
     digit_char (month t div 10), digit_char (month t mod 10),
     digit_char (day t div 10), digit_char (day t mod 10), CHR ''_'',
     digit_char (hour t div 10), digit_char (hour t mod 10),
     digit_char (minute t div 10), digit_char (minute t mod 10),
     digit_char (second t div 10), digit_char (second t mod 10)]"
proof -
  from assms(1) have b: "year t \<le> 9999" "month t < 100" "day t < 100" "hour t < 100"
    "minute t < 100" "second t < 100"
    using days_in_month_le [of "year t" "month t"] by (simp_all add: valid_datetime_def)
  show ?thesis
    using assms(2) b by (simp add: strftime_stamp_def format_year_def dec_4 pad_2)
qed

lemma two_digits:
  assumes "n < 100"
  shows "is_digit (digit_char (n div 10))" "is_digit (digit_char (n mod 10))"
    "num [digit_char (n div 10), digit_char (n mod 10)] = n"
proof -
  from assms have a: "n div 10 < 10" "n mod 10 < 10" by simp_all
  show "is_digit (digit_char (n div 10))" "is_digit (digit_char (n mod 10))"
    using a by (simp_all add: digit_char_facts)
  show "num [digit_char (n div 10), digit_char (n mod 10)] = n"
    using a by (simp add: num_def digit_char_facts)
qed

lemma four_digits:
  assumes "n \<le> 9999"
  shows "is_digit (digit_char (n div 1000))" "is_digit (digit_char (n div 100 mod 10))"
    "is_digit (digit_char (n div 10 mod 10))" "is_digit (digit_char (n mod 10))"
    "num [digit_char (n div 1000), digit_char (n div 100 mod 10),
          digit_char (n div 10 mod 10), digit_char (n mod 10)] = n"
proof -
  from assms have a: "n div 1000 < 10" "n div 100 mod 10 < 10" "n div 10 mod 10 < 10"
    "n mod 10 < 10"
    by simp_all
  show "is_digit (digit_char (n div 1000))" "is_digit (digit_char (n div 100 mod 10))"
    "is_digit (digit_char (n div 10 mod 10))" "is_digit (digit_char (n mod 10))"
    using a by (simp_all add: digit_char_facts)
  have 1: "10 * (n div 1000) + n div 100 mod 10 = n div 100"
    using mult_div_mod_eq [of 10 "n div 100"] by (simp add: div_mult2_eq [symmetric])
  have 2: "10 * (n div 100) + n div 10 mod 10 = n div 10"
    using mult_div_mod_eq [of 10 "n div 10"] by (simp add: div_mult2_eq [symmetric])
  have "10 * (10 * (10 * (n div 1000) + n div 100 mod 10) + n div 10 mod 10) + n mod 10 = n"
    by (simp only: 1 2 mult_div_mod_eq)
  then show "num [digit_char (n div 1000), digit_char (n div 100 mod 10),
          digit_char (n div 10 mod 10), digit_char (n mod 10)] = n"
    using a by (simp add: num_def digit_char_facts)
qed

lemma fixed_width_stamp:
  assumes "valid_datetime t" "1000 \<le> year t"
  shows "fixed_width (strftime_stamp rt t)"
proof -
  from assms(1) have b: "year t \<le> 9999" "month t < 100" "day t < 100" "hour t < 100"
    "minute t < 100" "second t < 100"
    using days_in_month_le [of "year t" "month t"] by (simp_all add: valid_datetime_def)
  show ?thesis
    by (simp add: strftime_stamp_explicit [OF assms] fixed_width_def four_digits(1-4) [OF b(1)]
        two_digits(1,2) b)
qed

lemma strptime_strftime:
  assumes "valid_datetime t" "1000 \<le> year t"
  shows "strptime rt (strftime_stamp rt t) = Some t"
proof -
  from assms(1) have b: "year t \<le> 9999" "month t < 100" "day t < 100" "hour t < 100"
    "minute t < 100" "second t < 100"
    using days_in_month_le [of "year t" "month t"] by (simp_all add: valid_datetime_def)
  have "strptime rt (strftime_stamp rt t) =
      (let t' = \<lparr>year = year t, month = month t, day = day t, hour = hour t,
                  minute = minute t, second = second t\<rparr>
       in if valid_datetime t' then Some t' else None)"
    unfolding strptime_def
    by (simp only: fixed_width_stamp [OF assms] if_True)
       (simp add: strftime_stamp_explicit [OF assms] four_digits(5) [OF b(1)] two_digits(3) b)
  with assms(1) show ?thesis by (cases t) simp
qed

section \<open>The stored snapshot in the history\<close>

lemma fst_write_file:
  "map fst (write_file n c fs)
    = (if n \<in> set (map fst fs) then map fst fs else map fst fs @ [n])"
proof (induction fs)
  case Nil
  then show ?case by simp
next
  case (Cons a fs)
  obtain m d where a: "a = (m, d)" by (cases a)
  show ?case
  proof (cases "m = n")
    case True
    with a show ?thesis by simp
  next
    case False
    with a Cons show ?thesis by simp
  qed
qed

lemma distinct_write_file:
  "distinct (map fst fs) \<Longrightarrow> distinct (map fst (write_file n c fs))"
  by (simp add: fst_write_file)

lemma snapshot_name_facts:
  assumes "valid_datetime t" "1000 \<le> year t"
  shows "glob_match (snapshot_name rt t)"
    and "name_stamp (snapshot_name rt t) = strftime_stamp rt t"
proof -
  have l: "length (strftime_stamp rt t) = 15"
    using fixed_width_stamp [OF assms, of rt] by (simp add: fixed_width_def)
  show "glob_match (snapshot_name rt t)"
    using l by (simp add: glob_match_def snapshot_name_def)
  show "name_stamp (snapshot_name rt t) = strftime_stamp rt t"
    using l by (simp add: name_stamp_def snapshot_name_def)
qed

lemma read_saved_snapshot:
  assumes "valid_datetime t" "1000 \<le> year t"
    and "map_of dir (snapshot_name rt t) = Some (Holds (resp_json its gt))"
  shows "read_snapshot rt dir (SNAPSHOT_DIR @ ''/'' @ snapshot_name rt t)
    = Inr \<lparr>entry_ts = strftime_minute rt t, entry_grand_total = JFloat gt\<rparr>"
proof -
  note f = snapshot_name_facts [OF assms(1,2), of rt]
  have fw: "fixed_width (name_stamp (snapshot_name rt t))"
    using fixed_width_stamp [OF assms(1,2), of rt] by (simp add: f(2))
  have s: "stamp_of (SNAPSHOT_DIR @ ''/'' @ snapshot_name rt t) = strftime_stamp rt t"
    using stamp_of_glob [OF f(1) fw] by (simp add: f(2))
  have a: "file_at dir (SNAPSHOT_DIR @ ''/'' @ snapshot_name rt t) = Some (Holds (resp_json its gt))"
    using assms(3) by (simp add: file_at_def SNAPSHOT_DIR_def)
  show ?thesis
    unfolding read_snapshot_def a s strptime_strftime [OF assms(1,2)]
    by (simp add: resp_json_def)
qed

lemma sorted_distinct_split:
  fixes xs :: "'a::linorder list"
  assumes "sorted xs" "distinct xs" "x \<in> set xs"
  shows "xs = filter (\<lambda>y. y < x) xs @ [x] @ filter (\<lambda>y. x < y) xs"
  using assms
proof (induction xs)
  case Nil
  then show ?case by simp
next
  case (Cons a xs)
  show ?case
  proof (cases "a = x")
    case True
    with Cons.prems have "\<forall>y \<in> set xs. x < y"
      by (auto simp: less_le)
    then have "filter (\<lambda>y. y < x) xs = []" "filter (\<lambda>y. x < y) xs = xs"
      by (auto simp: filter_empty_conv filter_id_conv)
    with True show ?thesis by simp
  next
    case False
    with Cons.prems have x: "x \<in> set xs" and "a \<le> x"
      by auto
    with False have "a < x" by simp
    moreover have "xs = filter (\<lambda>y. y < x) xs @ [x] @ filter (\<lambda>y. x < y) xs"
      using Cons.IH Cons.prems x by simp
    ultimately show ?thesis by (simp add: not_less_iff_gr_or_eq)
  qed
qed

lemma distinct_glob: "distinct (map fst dir) \<Longrightarrow> distinct (sort (glob dir))"
  by (simp add: glob_def distinct_map distinct_map_filter inj_on_def)

lemma api_prices_stored:
  "filename (fst (api_prices rt env (Some ''1'') d io0)) = Some (snapshot_name rt (localtime env))
   \<and> snapshots (fst (snd (api_prices rt env (Some ''1'') d io0)))
      = write_file (snapshot_name rt (localtime env))
          (Holds (resp_json (items (fst (api_prices rt env (Some ''1'') d io0)))
                            (grand_total (fst (api_prices rt env (Some ''1'') d io0)))))
          (write_file (snapshot_name rt (localtime env)) NotJson (snapshots d))"
  by (cases "price_loop rt env INVENTORY (load_cache d, io0, [], float_zero rt)")
     (simp add: api_prices_def Let_def run_steps_def save_snapshot_steps_def
        open_w_snapshot_def dump_snapshot_def save_cache_def save_cache_steps_def
        open_w_tmp_def dump_tmp_def replace_tmp_def)

lemma written_name_listed: "n \<in> set (map fst (write_file n c fs))"
  by (simp add: fst_write_file)

lemma grand_total_any_store:
  "grand_total (fst (api_prices rt env store d io0))
    = grand_total (fst (api_prices rt env None d io0))"
  by (cases "price_loop rt env INVENTORY (load_cache d, io0, [], float_zero rt)")
     (simp add: api_prices_def Let_def)

lemma demo_clock:
  "valid_datetime (localtime demo_env)" "1000 \<le> year (localtime demo_env)"
  "strftime_minute cents_py (localtime demo_env) = ''2025-07-11 12:30''"
  by (simp_all add: demo_env_def valid_datetime_def days_in_month_def strftime_minute_def
      format_year_def pad_def dec.simps digit_char_def)

text \<open>
  C8. A valuation stored at a wall-clock time with a four-digit year, in a snapshot
  directory whose file names are distinct, writes the file named after that time; the
  history read right after has exactly one entry that comes from this file, between the
  entries of the paths before it and those of the paths after it, and this entry carries
  the time, to the minute, and the grand total of the response.
\<close>

theorem saved_snapshot_listed_once:
  assumes "distinct (map fst (snapshots d))"
    and "valid_datetime (localtime env)" and "1000 \<le> year (localtime env)"
  shows "let r = api_prices rt env (Some ''1'') d io0;
             dir = snapshots (fst (snd r));
             path = SNAPSHOT_DIR @ ''/'' @ snapshot_name rt (localtime env);
             paths = sort (glob dir)
         in filename (fst r) = Some (snapshot_name rt (localtime env))
          \<and> fst (api_history rt dir) =
              entries_of rt dir (filter (\<lambda>p. p < path) paths)
              @ [\<lparr>entry_ts = strftime_minute rt (localtime env),
                  entry_grand_total = JFloat (grand_total (fst r))\<rparr>]
              @ entries_of rt dir (filter (\<lambda>p. path < p) paths)"
proof -
  define r where "r = api_prices rt env (Some ''1'') d io0"
  define fname where "fname = snapshot_name rt (localtime env)"
  define doc where "doc = resp_json (items (fst r)) (grand_total (fst r))"
  define dir where "dir = snapshots (fst (snd r))"
  define path where "path = SNAPSHOT_DIR @ ''/'' @ fname"
  define paths where "paths = sort (glob dir)"
  let ?e = "\<lparr>entry_ts = strftime_minute rt (localtime env),
              entry_grand_total = JFloat (grand_total (fst r))\<rparr>"
  have fn: "filename (fst r) = Some fname"
    and dir: "dir = write_file fname (Holds doc) (write_file fname NotJson (snapshots d))"
    using api_prices_stored [of rt env d io0] by (simp_all add: r_def fname_def doc_def dir_def)
  have m: "map_of dir fname = Some (Holds doc)"
    by (simp add: dir map_of_write_file)
  have dd: "distinct (map fst dir)"
    unfolding dir by (intro distinct_write_file assms(1))
  have "fname \<in> set (map fst dir)"
    unfolding dir by (rule written_name_listed)
  moreover have "glob_match fname"
    unfolding fname_def by (rule snapshot_name_facts(1) [OF assms(2,3)])
  ultimately have "path \<in> set paths"
    by (auto simp: paths_def path_def glob_def)
  moreover have "sorted paths" "distinct paths"
    using distinct_glob [OF dd] by (simp_all add: paths_def)
  ultimately have split: "paths = filter (\<lambda>p. p < path) paths @ [path] @ filter (\<lambda>p. path < p) paths"
    by (intro sorted_distinct_split)
  have "read_snapshot rt dir path = Inr ?e"
    using read_saved_snapshot [OF assms(2,3), of dir rt "items (fst r)" "grand_total (fst r)"] m
    by (simp add: path_def fname_def doc_def)
  then have one: "entries_of rt dir [path] = [?e]"
    by (simp add: entries_of_def map_filter_def)
  have "fst (api_history rt dir) = entries_of rt dir paths"
    by (simp add: api_history_eq paths_def)
  also have "\<dots> = entries_of rt dir (filter (\<lambda>p. p < path) paths) @ entries_of rt dir [path]
      @ entries_of rt dir (filter (\<lambda>p. path < p) paths)"
    by (subst split) (simp only: entries_of_append)
  finally have "fst (api_history rt dir) =
      entries_of rt dir (filter (\<lambda>p. p < path) paths) @ [?e]
      @ entries_of rt dir (filter (\<lambda>p. path < p) paths)"
    by (simp only: one)
  with fn show ?thesis
    by (simp add: Let_def r_def fname_def dir_def path_def paths_def)
qed

theorem saved_snapshot_listed_once_witness:
  "distinct (map fst (snapshots demo_disk)) \<and> valid_datetime (localtime demo_env)
   \<and> 1000 \<le> year (localtime demo_env)
   \<and> fst (api_history cents_py
        (snapshots (fst (snd (api_prices cents_py demo_env (Some ''1'') demo_disk io_start)))))
      = [\<lparr>entry_ts = ''2025-07-11 12:30'', entry_grand_total = JFloat 1442000\<rparr>]"
proof -
  have d: "distinct (map fst (snapshots demo_disk))"
    by (simp add: demo_disk_def)
  have g: "glob_match (snapshot_name cents_py (localtime demo_env))"
    by (rule snapshot_name_facts(1) [OF demo_clock(1,2)])
  have s: "snapshots (fst (snd (api_prices cents_py demo_env (Some ''1'') demo_disk io_start)))
    = [(snapshot_name cents_py (localtime demo_env),
        Holds (resp_json (items (fst (api_prices cents_py demo_env (Some ''1'') demo_disk io_start)))
           (grand_total (fst (api_prices cents_py demo_env (Some ''1'') demo_disk io_start)))))]"
    using api_prices_stored [of cents_py demo_env demo_disk io_start]
    by (simp add: demo_disk_def)
  have t: "grand_total (fst (api_prices cents_py demo_env (Some ''1'') demo_disk io_start)) = 1442000"
    by (simp add: grand_total_any_store [of _ _ "Some ''1''"] demo_response)
  from saved_snapshot_listed_once [OF d demo_clock(1,2), of cents_py io_start]
  show ?thesis
    using d demo_clock g by (auto simp: Let_def s glob_def t entries_of_def map_filter_def)
qed

end
